theory Spec2Isabelle
  imports Main "HOL-Library.Word"
begin

unbundle bit_operations_syntax

section \<open>The external pointer table of V8's sandbox\<close>

text \<open>
  This theory embeds \<^verbatim>\<open>src/sandbox/external-pointer-table-inl.h\<close> and
  \<^verbatim>\<open>src/objects/string-set-inl.h\<close>.

  Conventions of the embedding.
  \<^item> \<^verbatim>\<open>Address\<close> is a 64-bit word, \<^verbatim>\<open>ExternalPointerHandle\<close> and table indices
    are 32-bit words, \<^verbatim>\<open>ExternalPointerTag\<close> is a 64-bit word (an enum over
    \<^verbatim>\<open>uint64_t\<close>).
  \<^item> A C++ member \<^verbatim>\<open>name_\<close> is the record field \<open>name_m\<close> (an Isabelle name cannot
    end in an underscore).
  \<^item> The build modelled is the debug build: a failing \<^verbatim>\<open>DCHECK\<close> aborts the
    process, and the code under \<^verbatim>\<open>#ifdef DEBUG\<close> runs. Every abort is a value
    \<open>Inl e\<close> of the result type, one error per check.
  \<^item> Other threads are modelled by interference: a thread runs on a pair of the
    shared state and the list of state changes that the other threads will make in
    the windows between its own accesses to shared memory. \<open>yield\<close> opens a window: it
    applies the next change of the list. A function yields between two of its
    accesses, not before its first one; a debug check reads the state of the access
    before it. The empty list is a run with no other thread.
\<close>

subsection \<open>Constants and the entry encoding\<close>

type_synonym Address = "64 word"
type_synonym ExternalPointerHandle = "32 word"
type_synonym ExternalPointerTag = "64 word"
type_synonym Entry = "64 word"

text \<open>
  Modelled from the spec: the constants of \<^verbatim>\<open>include/v8-internal.h\<close> and
  \<^verbatim>\<open>external-pointer-table.h\<close>, which are not part of the excerpt. Section 3 of
  the spec fixes what they must satisfy: the tag bits and the mark bit lie above the
  bits of a raw pointer, the mark bit is the high bit of a tag, the null handle is 0,
  a handle is the index scaled by a constant, the "not compacting" sentinel is a value
  of the boundary word and the abort marker is OR-ed into it. The two tags reserved
  for the freelist and evacuation shapes do not carry the mark bit, so that setting
  the mark bit of a regular entry leaves it regular.
\<close>

definition kExternalPointerTagMask :: "64 word" where
  "kExternalPointerTagMask = 0xffff000000000000"

definition kExternalPointerMarkBit :: "64 word" where
  "kExternalPointerMarkBit = 0x8000000000000000"

definition kExternalPointerFreeEntryTag :: ExternalPointerTag where
  "kExternalPointerFreeEntryTag = 0x00ff000000000000"

definition kExternalPointerEvacuationEntryTag :: ExternalPointerTag where
  "kExternalPointerEvacuationEntryTag = 0x00e7000000000000"

definition kExternalPointerIndexShift :: nat where
  "kExternalPointerIndexShift = 8"

definition kNullExternalPointerHandle :: ExternalPointerHandle where
  "kNullExternalPointerHandle = 0"

definition kVisitedHandleMarker :: "32 word" where
  "kVisitedHandleMarker = 0x1"

definition kNotCompactingMarker :: "32 word" where
  "kNotCompactingMarker = 0xffffffff"

definition kCompactionAbortedMarker :: "32 word" where
  "kCompactionAbortedMarker = 0xf0000000"

definition kFreelistNextMask :: "64 word" where
  "kFreelistNextMask = 0x0000000000ffffff"

definition kFreelistSizeShift :: nat where
  "kFreelistSizeShift = 24"

text \<open>
  Modelled from the spec: handle-to-index and index-to-handle (declared in the header)
  are "a fixed, invertible scaling (handle = index * constant)".
\<close>

definition HandleToIndex :: "ExternalPointerHandle \<Rightarrow> 32 word" where
  "HandleToIndex handle = drop_bit kExternalPointerIndexShift handle"

definition IndexToHandle :: "32 word \<Rightarrow> ExternalPointerHandle" where
  "IndexToHandle index = push_bit kExternalPointerIndexShift index"

text \<open>
  Modelled from the spec: the nested class \<^verbatim>\<open>Entry\<close> (declared in the header) is
  one machine word with three shapes told apart by reserved bits (section 3, 4.1):
  regular (value combined with tag and mark bit), freelist node (next free index and
  freelist size), evacuation node (address of the handle slot).
\<close>

definition MakeRegularEntry :: "Address \<Rightarrow> ExternalPointerTag \<Rightarrow> Entry" where
  "MakeRegularEntry v tag = v OR tag"

definition MakeFreelistEntry :: "32 word \<Rightarrow> 32 word \<Rightarrow> Entry" where
  "MakeFreelistEntry next_freelist_entry freelist_size =
     push_bit kFreelistSizeShift (ucast freelist_size AND kFreelistNextMask)
       OR (ucast next_freelist_entry AND kFreelistNextMask)
       OR kExternalPointerFreeEntryTag"

definition MakeEvacuationEntry :: "Address \<Rightarrow> Entry" where
  "MakeEvacuationEntry pointer_location = pointer_location OR kExternalPointerEvacuationEntryTag"

definition HasTag :: "Entry \<Rightarrow> ExternalPointerTag \<Rightarrow> bool" where
  "HasTag e tag \<longleftrightarrow> e AND kExternalPointerTagMask = tag"

definition IsFreelistEntry :: "Entry \<Rightarrow> bool" where
  "IsFreelistEntry e \<longleftrightarrow> HasTag e kExternalPointerFreeEntryTag"

definition IsEvacuationEntry :: "Entry \<Rightarrow> bool" where
  "IsEvacuationEntry e \<longleftrightarrow> HasTag e kExternalPointerEvacuationEntryTag"

definition IsRegularEntry :: "Entry \<Rightarrow> bool" where
  "IsRegularEntry e \<longleftrightarrow> \<not> IsFreelistEntry e \<and> \<not> IsEvacuationEntry e"

definition IsMarked :: "Entry \<Rightarrow> bool" where
  "IsMarked e \<longleftrightarrow> e AND kExternalPointerMarkBit \<noteq> 0"

definition SetMarkBit :: "Entry \<Rightarrow> Entry" where
  "SetMarkBit e = e OR kExternalPointerMarkBit"

definition ExtractNextFreelistEntry :: "Entry \<Rightarrow> 32 word" where
  "ExtractNextFreelistEntry e = ucast (e AND kFreelistNextMask)"

definition ExtractFreelistSize :: "Entry \<Rightarrow> 32 word" where
  "ExtractFreelistSize e = ucast (drop_bit kFreelistSizeShift e AND kFreelistNextMask)"

definition ExtractHandleLocation :: "Entry \<Rightarrow> Address" where
  "ExtractHandleLocation e = e AND NOT kExternalPointerTagMask"

datatype error =
    NullHandle
  | ValueHasTagBits
  | TagLacksMarkBit
  | NotRegularEntry
  | TagMismatch
  | FreelistHeadIsZero
  | FreelistHeadOutOfCapacity
  | ClaimedNonFreelistEntry
  | NotInitialized
  | FreelistSizeExceedsCapacity
  | HandleLocationMismatch
  | NotCompacting
  | EvacuationEntryNotBelowArea
  | MarkBitLost
  | OutOfMemory
  | NotAString

text \<open>
  Modelled from the spec: \<^verbatim>\<open>Entry::Untag\<close> (declared in the header) "must assert
  the stored tag matches the requested tag before returning" the raw pointer, and a
  mismatch "must abort, not silently return garbage" (section 4.1). The stored tag is
  what the entry holds under the tag mask; the mark bit is the high bit of the tag.
\<close>

definition Untag :: "Entry \<Rightarrow> ExternalPointerTag \<Rightarrow> error + Address" where
  "Untag e tag =
     (if HasTag e tag then Inr (e AND NOT tag) else Inl TagMismatch)"

text \<open>
  Modelled from the spec: the values of the enum \<^verbatim>\<open>ExternalPointerTag\<close>
  (\<^verbatim>\<open>include/v8-internal.h\<close>, not part of the excerpt) that callers use for their
  pointers, the tag space of section 6. Such a tag lies under the tag mask ("tag bits
  and mark bit never collide with the raw pointer's low bits") and is neither of the
  two tags reserved for the freelist and evacuation shapes.
\<close>

definition IsPointerTag :: "ExternalPointerTag \<Rightarrow> bool" where
  "IsPointerTag tag \<longleftrightarrow>
     tag AND NOT kExternalPointerTagMask = 0
     \<and> tag \<noteq> kExternalPointerFreeEntryTag
     \<and> tag \<noteq> kExternalPointerEvacuationEntryTag"

subsection \<open>The shared state and interference\<close>

text \<open>
  The table object and the memory it works on: the entry array behind
  \<^verbatim>\<open>buffer_\<close> (a word per index, read and written whole), the members
  \<^verbatim>\<open>capacity_\<close>, \<^verbatim>\<open>freelist_head_\<close>, \<^verbatim>\<open>start_of_evacuation_area_\<close>, the
  answer of \<^verbatim>\<open>is_initialized()\<close>, and the managed heap as far as \<^verbatim>\<open>Mark\<close>
  touches it: the 32-bit handle stored at each handle location.
\<close>

record ExternalPointerTable =
  buffer_m :: "32 word \<Rightarrow> Entry"
  capacity_m :: "32 word"
  freelist_head_m :: "32 word"
  start_of_evacuation_area_m :: "32 word"
  is_initialized_m :: bool
  heap_m :: "Address \<Rightarrow> ExternalPointerHandle"

type_synonym interference = "ExternalPointerTable \<Rightarrow> ExternalPointerTable"

type_synonym exec = "ExternalPointerTable \<times> interference list"

fun yield :: "exec \<Rightarrow> exec" where
  "yield (s, []) = (s, [])"
| "yield (s, f # fs) = (f s, fs)"

definition RelaxedLoad :: "32 word \<Rightarrow> ExternalPointerTable \<Rightarrow> Entry" where
  "RelaxedLoad index s = buffer_m s index"

definition RelaxedStore :: "32 word \<Rightarrow> Entry \<Rightarrow> ExternalPointerTable \<Rightarrow> ExternalPointerTable" where
  "RelaxedStore index e s = s\<lparr>buffer_m := (buffer_m s)(index := e)\<rparr>"

definition Store :: "32 word \<Rightarrow> Entry \<Rightarrow> ExternalPointerTable \<Rightarrow> ExternalPointerTable" where
  "Store index e s = s\<lparr>buffer_m := (buffer_m s)(index := e)\<rparr>"

definition RelaxedExchange ::
  "32 word \<Rightarrow> Entry \<Rightarrow> ExternalPointerTable \<Rightarrow> Entry \<times> ExternalPointerTable" where
  "RelaxedExchange index e s = (buffer_m s index, s\<lparr>buffer_m := (buffer_m s)(index := e)\<rparr>)"

definition RelaxedCompareAndSwap ::
  "32 word \<Rightarrow> Entry \<Rightarrow> Entry \<Rightarrow> ExternalPointerTable \<Rightarrow> Entry \<times> ExternalPointerTable" where
  "RelaxedCompareAndSwap index old_entry new_entry s =
     (let seen = buffer_m s index
      in if seen = old_entry
         then (seen, s\<lparr>buffer_m := (buffer_m s)(index := new_entry)\<rparr>)
         else (seen, s))"

definition Relaxed_CompareAndSwap_freelist_head ::
  "32 word \<Rightarrow> 32 word \<Rightarrow> ExternalPointerTable \<Rightarrow> 32 word \<times> ExternalPointerTable" where
  "Relaxed_CompareAndSwap_freelist_head old_value new_value s =
     (let seen = freelist_head_m s
      in if seen = old_value then (seen, s\<lparr>freelist_head_m := new_value\<rparr>) else (seen, s))"

subsection \<open>Get, Set, Exchange\<close>

definition Get ::
  "ExternalPointerHandle \<Rightarrow> ExternalPointerTag \<Rightarrow> ExternalPointerTable \<Rightarrow> error + Address" where
  "Get handle tag s =
     (let index = HandleToIndex handle;
          entry = RelaxedLoad index s
      in if \<not> IsRegularEntry entry then Inl NotRegularEntry
         else Untag entry tag)"

definition Set ::
  "ExternalPointerHandle \<Rightarrow> Address \<Rightarrow> ExternalPointerTag \<Rightarrow> ExternalPointerTable
     \<Rightarrow> error + ExternalPointerTable" where
  "Set handle v tag s =
     (if handle = kNullExternalPointerHandle then Inl NullHandle
      else if v AND kExternalPointerTagMask \<noteq> 0 then Inl ValueHasTagBits
      else if tag AND kExternalPointerMarkBit = 0 then Inl TagLacksMarkBit
      else let index = HandleToIndex handle;
               entry = MakeRegularEntry v tag
           in Inr (RelaxedStore index entry s))"

definition Exchange ::
  "ExternalPointerHandle \<Rightarrow> Address \<Rightarrow> ExternalPointerTag \<Rightarrow> ExternalPointerTable
     \<Rightarrow> error + (Address \<times> ExternalPointerTable)" where
  "Exchange handle v tag s =
     (if handle = kNullExternalPointerHandle then Inl NullHandle
      else if v AND kExternalPointerTagMask \<noteq> 0 then Inl ValueHasTagBits
      else if tag AND kExternalPointerMarkBit = 0 then Inl TagLacksMarkBit
      else let index = HandleToIndex handle;
               new_entry = MakeRegularEntry v tag;
               (old_entry, s') = RelaxedExchange index new_entry s
           in if \<not> IsRegularEntry old_entry then Inl NotRegularEntry
              else case Untag old_entry tag of
                     Inl e \<Rightarrow> Inl e
                   | Inr old_value \<Rightarrow> Inr (old_value, s'))"

subsection \<open>The freelist allocator\<close>

text \<open>
  \<^verbatim>\<open>TryAllocateEntryFromFreelist\<close>: the entry is loaded, the other threads take
  their turn, then \<^verbatim>\<open>freelist_head_\<close> is compared and swapped.
\<close>

definition TryAllocateEntryFromFreelist :: "32 word \<Rightarrow> exec \<Rightarrow> error + (bool \<times> exec)" where
  "TryAllocateEntryFromFreelist freelist_head x =
     (if freelist_head = 0 then Inl FreelistHeadIsZero
      else if \<not> freelist_head < capacity_m (fst x) then Inl FreelistHeadOutOfCapacity
      else let entry = RelaxedLoad freelist_head (fst x);
               new_freelist_head = ExtractNextFreelistEntry entry;
               x1 = yield x;
               (old_val, s') = Relaxed_CompareAndSwap_freelist_head freelist_head new_freelist_head (fst x1);
               success = (old_val = freelist_head)
           in if success \<and> \<not> IsFreelistEntry entry then Inl ClaimedNonFreelistEntry
              else Inr (success, (s', snd x1)))"

text \<open>
  The loop of \<^verbatim>\<open>AllocateEvacuationEntry\<close>. A failed compare-and-swap means that
  another thread has changed \<^verbatim>\<open>freelist_head_\<close> since it was loaded, so every
  retry uses up interference and the loop ends.
\<close>

function AllocateEvacuationEntry_loop ::
  "32 word \<Rightarrow> exec \<Rightarrow> error + (ExternalPointerHandle \<times> exec)" where
  "AllocateEvacuationEntry_loop start_of_evacuation_area x =
     (let freelist_head = freelist_head_m (fst x)
      in if freelist_head = 0 \<or> freelist_head \<ge> start_of_evacuation_area
         then Inr (kNullExternalPointerHandle, x)
         else case TryAllocateEntryFromFreelist freelist_head (yield x) of
                Inl e \<Rightarrow> Inl e
              | Inr (success, x') \<Rightarrow>
                  if success then Inr (IndexToHandle freelist_head, x')
                  else AllocateEvacuationEntry_loop start_of_evacuation_area (yield x'))"
  by pat_completeness auto
termination
proof (relation "measure (\<lambda>(a, x). length (snd x))", goal_cases)
  case 1
  then show ?case by simp
next
  case (2 a x h r succ x')
  have yield_le: "length (snd (yield y)) \<le> length (snd y)" for y :: exec
    by (cases y rule: yield.cases) auto
  from 2 have h: "freelist_head_m (fst x) = h"
    and t: "TryAllocateEntryFromFreelist h (yield x) = Inr (False, x')"
    by auto
  have le: "length (snd x') \<le> length (snd (yield x))"
    using t yield_le [of "yield x"]
    by (auto simp: TryAllocateEntryFromFreelist_def Relaxed_CompareAndSwap_freelist_head_def
          Let_def split: if_splits prod.splits)
  have "length (snd (yield x')) < length (snd x)"
  proof (cases "snd x")
    case Nil
    then have "yield x = x" by (cases x) auto
    with t h Nil show ?thesis
      by (cases x)
        (auto simp: TryAllocateEntryFromFreelist_def Relaxed_CompareAndSwap_freelist_head_def
          Let_def split: if_splits prod.splits)
  next
    case (Cons f fs)
    then obtain s where "x = (s, f # fs)" by (cases x) auto
    then have "length (snd (yield x)) < length (snd x)" by simp
    with le yield_le [of x'] show ?thesis by linarith
  qed
  then show ?case by simp
qed

declare AllocateEvacuationEntry_loop.simps [simp del]

definition AllocateEvacuationEntry ::
  "32 word \<Rightarrow> exec \<Rightarrow> error + (ExternalPointerHandle \<times> exec)" where
  "AllocateEvacuationEntry start_of_evacuation_area x =
     (if \<not> is_initialized_m (fst x) then Inl NotInitialized
      else AllocateEvacuationEntry_loop start_of_evacuation_area x)"

text \<open>
  \<^verbatim>\<open>AllocateAndInitializeEntry\<close> calls \<^verbatim>\<open>Grow\<close>, which is defined in
  \<^verbatim>\<open>external-pointer-table.cc\<close> and is not part of the excerpt: it is a parameter
  of the model, a function from the state to the new freelist head and the new state,
  or to an error when the table cannot grow. The lock is taken in the window before
  the head is loaded again; it only keeps two calls of \<^verbatim>\<open>Grow\<close> apart. The loop
  may run forever (when \<^verbatim>\<open>Grow\<close> returns a head that is not the freelist head),
  and so may the loop of \<^verbatim>\<open>FreelistSize\<close> (when the head entry is not a freelist
  entry and no other thread changes that): both return \<open>None\<close> then.
\<close>

partial_function (option) AllocateAndInitializeEntry_loop ::
  "(ExternalPointerTable \<Rightarrow> error + (32 word \<times> ExternalPointerTable)) \<Rightarrow> exec
     \<Rightarrow> (error + (32 word \<times> exec)) option" where
  [code]: "AllocateAndInitializeEntry_loop Grow x =
     (case (if freelist_head_m (fst x) = 0
            then let xl = yield x
                 in if freelist_head_m (fst xl) = 0
                    then (case Grow (fst xl) of
                            Inl e \<Rightarrow> Inl e
                          | Inr (freelist_head, s') \<Rightarrow> Inr (freelist_head, (s', snd xl)))
                    else Inr (freelist_head_m (fst xl), xl)
            else Inr (freelist_head_m (fst x), x)) of
        Inl e \<Rightarrow> Some (Inl e)
      | Inr (freelist_head, x1) \<Rightarrow>
          (case TryAllocateEntryFromFreelist freelist_head (yield x1) of
             Inl e \<Rightarrow> Some (Inl e)
           | Inr (success, x2) \<Rightarrow>
               if success then Some (Inr (freelist_head, x2))
               else AllocateAndInitializeEntry_loop Grow (yield x2)))"

definition AllocateAndInitializeEntry ::
  "(ExternalPointerTable \<Rightarrow> error + (32 word \<times> ExternalPointerTable)) \<Rightarrow> Address
     \<Rightarrow> ExternalPointerTag \<Rightarrow> exec \<Rightarrow> (error + (ExternalPointerHandle \<times> exec)) option" where
  "AllocateAndInitializeEntry Grow initial_value tag x =
     (if \<not> is_initialized_m (fst x) then Some (Inl NotInitialized)
      else case AllocateAndInitializeEntry_loop Grow x of
             None \<Rightarrow> None
           | Some (Inl e) \<Rightarrow> Some (Inl e)
           | Some (Inr (freelist_head, x1)) \<Rightarrow>
               let entry = MakeRegularEntry initial_value tag;
                   x2 = yield x1
               in Some (Inr (IndexToHandle freelist_head,
                             (RelaxedStore freelist_head entry (fst x2), snd x2))))"

partial_function (option) FreelistSize :: "exec \<Rightarrow> (error + (32 word \<times> exec)) option" where
  [code]: "FreelistSize x =
     (let freelist_head = freelist_head_m (fst x)
      in if freelist_head = 0 then Some (Inr (0, x))
         else let x1 = yield x;
                  entry = RelaxedLoad freelist_head (fst x1)
              in if \<not> IsFreelistEntry entry then FreelistSize (yield x1)
                 else let freelist_size = ExtractFreelistSize entry
                      in if \<not> freelist_size \<le> capacity_m (fst x1)
                         then Some (Inl FreelistSizeExceedsCapacity)
                         else Some (Inr (freelist_size, x1)))"

subsection \<open>Marking and compaction\<close>

definition IsCompacting :: "ExternalPointerTable \<Rightarrow> bool" where
  "IsCompacting s \<longleftrightarrow> start_of_evacuation_area_m s \<noteq> kNotCompactingMarker"

definition CompactingWasAbortedDuringMarking :: "ExternalPointerTable \<Rightarrow> bool" where
  "CompactingWasAbortedDuringMarking s \<longleftrightarrow>
     start_of_evacuation_area_m s AND kCompactionAbortedMarker = kCompactionAbortedMarker"

definition Mark :: "ExternalPointerHandle \<Rightarrow> Address \<Rightarrow> exec \<Rightarrow> error + exec" where
  "Mark handle handle_location x =
     (if heap_m (fst x) handle_location \<noteq> handle then Inl HandleLocationMismatch
      else
        let index = HandleToIndex handle;
            x1 = yield x;
            current_start_of_evacuation_area = start_of_evacuation_area_m (fst x1);
            evacuation =
              (if index \<ge> current_start_of_evacuation_area then
                 if \<not> IsCompacting (fst x1) then Inl NotCompacting
                 else
                   case AllocateEvacuationEntry current_start_of_evacuation_area (yield x1) of
                     Inl e \<Rightarrow> Inl e
                   | Inr (new_handle, x2) \<Rightarrow>
                       if new_handle \<noteq> 0 then
                         if \<not> HandleToIndex new_handle < current_start_of_evacuation_area
                         then Inl EvacuationEntryNotBelowArea
                         else
                           let index' = HandleToIndex new_handle;
                               x3 = yield x2;
                               s3 = Store index' (MakeEvacuationEntry handle_location) (fst x3);
                               x4 = yield (s3, snd x3)
                           in Inr ((fst x4)\<lparr>heap_m := (heap_m (fst x4))
                                      (handle_location := handle OR kVisitedHandleMarker)\<rparr>, snd x4)
                       else
                         let compaction_aborted_marker =
                               current_start_of_evacuation_area OR kCompactionAbortedMarker;
                             x3 = yield x2
                         in Inr ((fst x3)\<lparr>start_of_evacuation_area_m := compaction_aborted_marker\<rparr>,
                                 snd x3)
               else Inr x1)
        in case evacuation of
             Inl e \<Rightarrow> Inl e
           | Inr x5 \<Rightarrow>
               let x6 = yield x5;
                   old_entry = RelaxedLoad index (fst x6)
               in if \<not> IsRegularEntry old_entry then Inl NotRegularEntry
                  else
                    let new_entry = SetMarkBit old_entry;
                        x7 = yield x6;
                        (entry, s') = RelaxedCompareAndSwap index old_entry new_entry (fst x7)
                    in if entry = old_entry \<or> IsMarked entry then Inr (s', snd x7)
                       else Inl MarkBitLost)"

subsection \<open>Marking an entry, in the words of the specification\<close>

text \<open>
  The last step of marking as the specification words it (section 4.4): read the
  entry, assert that it is regular, set its mark bit, and compare-and-swap the marked
  copy in; when the swap fails because another thread wrote a fresh value, the mark is
  not retried. So there are two windows for the other threads, one load, and one swap:
  a swap that succeeds writes the marked copy; a swap that fails writes nothing, and
  the run ends in the state that the other threads left, or, when the entry found
  there is not marked, at the check that follows the swap. \<^verbatim>\<open>Mark\<close> is compared
  with it below.
\<close>

definition spec_mark_once :: "32 word \<Rightarrow> exec \<Rightarrow> error + exec" where
  "spec_mark_once index x5 =
     (let x6 = yield x5;
          old_entry = buffer_m (fst x6) index;
          x7 = yield x6;
          seen = buffer_m (fst x7) index
      in if \<not> IsRegularEntry old_entry then Inl NotRegularEntry
         else if seen = old_entry
           then Inr ((fst x7)\<lparr>buffer_m := (buffer_m (fst x7))(index := SetMarkBit old_entry)\<rparr>,
                     snd x7)
         else if IsMarked seen then Inr x7
         else Inl MarkBitLost)"

subsection \<open>String sets\<close>

text \<open>
  \<^verbatim>\<open>StringSetShape\<close> of \<^verbatim>\<open>string-set-inl.h\<close>. \<^verbatim>\<open>String::EnsureHash\<close> is defined in
  \<^verbatim>\<open>string-inl.h\<close>, which is not part of the excerpt: it is a parameter of the
  model, a function from the string to its hash and the string with the hash stored.
  \<^verbatim>\<open>String::cast\<close> checks in the debug build that the object is a string.
\<close>

datatype 'str Object = StringObject 'str | OtherObject

definition String_cast :: "'str Object \<Rightarrow> error + 'str" where
  "String_cast object =
     (case object of StringObject s \<Rightarrow> Inr s | OtherObject \<Rightarrow> Inl NotAString)"

definition StringSetShape_Hash ::
  "('str \<Rightarrow> 32 word \<times> 'str) \<Rightarrow> 'roots \<Rightarrow> 'str \<Rightarrow> 32 word \<times> 'str" where
  "StringSetShape_Hash EnsureHash roots key = EnsureHash key"

definition StringSetShape_HashForObject ::
  "('str \<Rightarrow> 32 word \<times> 'str) \<Rightarrow> 'roots \<Rightarrow> 'str Object \<Rightarrow> error + (32 word \<times> 'str)" where
  "StringSetShape_HashForObject EnsureHash roots object =
     (case String_cast object of Inl e \<Rightarrow> Inl e | Inr s \<Rightarrow> Inr (EnsureHash s))"

subsection \<open>A table to run the operations on\<close>

text \<open>
  Eight entries: a freelist of the two nodes 1 and 2, one regular entry at index 6
  (handle \<open>0x600\<close>, value \<open>0x1000\<close>), the evacuation area starting at index 4, and the
  handle \<open>0x600\<close> stored at the heap address \<open>0x500\<close>.
\<close>

definition demo_table :: ExternalPointerTable where
  "demo_table =
     \<lparr>buffer_m = (\<lambda>i. if i = 1 then MakeFreelistEntry 2 2
                      else if i = 2 then MakeFreelistEntry 0 1
                      else if i = 6 then MakeRegularEntry 0x1000 0x8001000000000000
                      else 0),
      capacity_m = 8, freelist_head_m = 1, start_of_evacuation_area_m = 4,
      is_initialized_m = True,
      heap_m = (\<lambda>a. if a = 0x500 then 0x600 else 0)\<rparr>"

definition demo_table_set :: ExternalPointerTable where
  "demo_table_set = demo_table\<lparr>buffer_m := (buffer_m demo_table)(6 := 0x8001000000002000)\<rparr>"

text \<open>
  What a call of \<^verbatim>\<open>Set\<close> or \<^verbatim>\<open>Exchange\<close> by another thread does to the
  shared state, as an interference step. For \<^verbatim>\<open>Exchange\<close> it is the state once its
  \<^verbatim>\<open>RelaxedExchange\<close> has run: the checks on the old entry come after the store,
  so the store is what the other threads see, whatever the old entry was.
\<close>

definition Set_by_another_thread ::
  "ExternalPointerHandle \<Rightarrow> Address \<Rightarrow> ExternalPointerTag \<Rightarrow> interference" where
  "Set_by_another_thread handle v tag s =
     (case Set handle v tag s of Inl e \<Rightarrow> s | Inr s' \<Rightarrow> s')"

definition Exchange_by_another_thread ::
  "ExternalPointerHandle \<Rightarrow> Address \<Rightarrow> ExternalPointerTag \<Rightarrow> interference" where
  "Exchange_by_another_thread handle v tag s =
     (if handle = kNullExternalPointerHandle then s
      else if v AND kExternalPointerTagMask \<noteq> 0 then s
      else if tag AND kExternalPointerMarkBit = 0 then s
      else let index = HandleToIndex handle;
               new_entry = MakeRegularEntry v tag;
               (old_entry, s') = RelaxedExchange index new_entry s
           in s')"

text \<open>The same table outside compaction, and with the mark bit of entry 6 cleared.\<close>

definition demo_idle :: ExternalPointerTable where
  "demo_idle = demo_table\<lparr>start_of_evacuation_area_m := kNotCompactingMarker\<rparr>"

definition demo_unmarked :: ExternalPointerTable where
  "demo_unmarked =
     demo_table\<lparr>buffer_m := (buffer_m demo_table)(6 := 0x0001000000001000),
                start_of_evacuation_area_m := kNotCompactingMarker\<rparr>"

text \<open>
  Three more tables: \<open>demo_table\<close> with an empty freelist, and after \<^verbatim>\<open>Mark\<close> has
  aborted its compaction; and a table whose freelist is 5, 2: the head lies in the
  evacuation area and the node behind it lies below.
\<close>

definition demo_exhausted :: ExternalPointerTable where
  "demo_exhausted = demo_table\<lparr>freelist_head_m := 0\<rparr>"

definition demo_unsorted :: ExternalPointerTable where
  "demo_unsorted =
     \<lparr>buffer_m = (\<lambda>i. if i = 5 then MakeFreelistEntry 2 2
                      else if i = 2 then MakeFreelistEntry 0 1
                      else if i = 6 then MakeRegularEntry 0x1000 0x8001000000000000
                      else 0),
      capacity_m = 8, freelist_head_m = 5, start_of_evacuation_area_m = 4,
      is_initialized_m = True,
      heap_m = (\<lambda>a. if a = 0x500 then 0x600 else 0)\<rparr>"

definition demo_aborted :: ExternalPointerTable where
  "demo_aborted = demo_exhausted\<lparr>start_of_evacuation_area_m := 0xf0000004\<rparr>"

definition demo_unsorted_aborted :: ExternalPointerTable where
  "demo_unsorted_aborted = demo_unsorted\<lparr>start_of_evacuation_area_m := 0xf0000004\<rparr>"

subsection \<open>The freelist as a chain\<close>

text \<open>
  The nodes reachable from an index by following the next pointers, up to the
  terminator 0, in order: \<open>freelist_chain s h xs\<close> says that they are \<open>xs\<close>.
\<close>

fun freelist_chain :: "ExternalPointerTable \<Rightarrow> 32 word \<Rightarrow> 32 word list \<Rightarrow> bool" where
  "freelist_chain s h [] \<longleftrightarrow> h = 0"
| "freelist_chain s h (i # is) \<longleftrightarrow>
     h = i \<and> i \<noteq> 0 \<and> IsFreelistEntry (buffer_m s i)
     \<and> freelist_chain s (ExtractNextFreelistEntry (buffer_m s i)) is"

text \<open>
  Claims made one after the other, each by \<^verbatim>\<open>TryAllocateEntryFromFreelist\<close> with the
  expected head given, and what a claim by another thread does to the shared state.
\<close>

fun claims_in_turn ::
  "32 word list \<Rightarrow> ExternalPointerTable \<Rightarrow> error + (bool list \<times> ExternalPointerTable)" where
  "claims_in_turn [] s = Inr ([], s)"
| "claims_in_turn (h # hs) s =
     (case TryAllocateEntryFromFreelist h (s, []) of
        Inl e \<Rightarrow> Inl e
      | Inr (success, x) \<Rightarrow>
          (case claims_in_turn hs (fst x) of
             Inl e \<Rightarrow> Inl e
           | Inr (bs, s') \<Rightarrow> Inr (success # bs, s')))"

definition Claim_by_another_thread :: "32 word \<Rightarrow> interference" where
  "Claim_by_another_thread h s =
     (case TryAllocateEntryFromFreelist h (s, []) of Inl e \<Rightarrow> s | Inr (success, x) \<Rightarrow> fst x)"

subsection \<open>The freelist size, frees and growth\<close>

text \<open>
  Invariant 2 of the spec (section 3): the freelist is an acyclic chain ending at 0
  whose node count is the size reported. Since \<^verbatim>\<open>FreelistSize\<close> reports the size
  stored in the head node and an allocation makes the next node the head, every node
  stores the number of nodes from itself onward: \<open>freelist_sizes\<close>. \<open>freelist_ok s xs\<close>
  is the invariant for a table whose freelist is \<open>xs\<close>: initialized, every index has a
  handle (capacity at most \<open>2^24\<close>), the chain is acyclic, every node lies below
  the capacity and stores its size.
\<close>

fun freelist_sizes :: "ExternalPointerTable \<Rightarrow> 32 word list \<Rightarrow> bool" where
  "freelist_sizes s [] \<longleftrightarrow> True"
| "freelist_sizes s (i # is) \<longleftrightarrow>
     i < capacity_m s
     \<and> unat (ExtractFreelistSize (buffer_m s i)) = Suc (length is)
     \<and> freelist_sizes s is"

definition freelist_ok :: "ExternalPointerTable \<Rightarrow> 32 word list \<Rightarrow> bool" where
  "freelist_ok s xs \<longleftrightarrow>
     is_initialized_m s \<and> capacity_m s \<le> 0x1000000 \<and> distinct xs
     \<and> freelist_chain s (freelist_head_m s) xs \<and> freelist_sizes s xs"

text \<open>
  Modelled from the spec: the reclaim of one entry by the sweep collaborator, which
  is not part of the excerpt. Sweep "frees unmarked regular entries back onto the
  freelist" (section 2, 6); a freelist node holds "the index of the next free entry
  and a running count of free entries reachable from this node onward" (section 3).
  An entry that is not an unmarked regular entry of the table is left as it is.
\<close>

definition FreeEntry :: "32 word \<Rightarrow> ExternalPointerTable \<Rightarrow> ExternalPointerTable" where
  "FreeEntry index s =
     (if index \<noteq> 0 \<and> index < capacity_m s
         \<and> IsRegularEntry (buffer_m s index) \<and> \<not> IsMarked (buffer_m s index)
      then let freelist_size =
                 (if freelist_head_m s = 0 then 0
                  else ExtractFreelistSize (buffer_m s (freelist_head_m s)))
           in s\<lparr>buffer_m := (buffer_m s)
                    (index := MakeFreelistEntry (freelist_head_m s) (freelist_size + 1)),
                 freelist_head_m := index\<rparr>
      else s)"

text \<open>
  Modelled from the spec: the contract of the growth collaborator (section 6), which
  is called on an empty freelist: when it succeeds it returns the new freelist head
  and leaves a table with a non-empty freelist on which the invariant holds.
\<close>

definition Grow_contract ::
  "(ExternalPointerTable \<Rightarrow> error + (32 word \<times> ExternalPointerTable)) \<Rightarrow> bool" where
  "Grow_contract Grow \<longleftrightarrow>
     (\<forall>s freelist_head s'. freelist_ok s [] \<and> Grow s = Inr (freelist_head, s') \<longrightarrow>
        freelist_head = freelist_head_m s' \<and> (\<exists>ys. ys \<noteq> [] \<and> freelist_ok s' ys))"

text \<open>
  A sequence of allocations and frees, run with no other thread: \<^verbatim>\<open>AllocateAndInitializeEntry\<close>,
  \<^verbatim>\<open>AllocateEvacuationEntry\<close> and the reclaim of an entry.
\<close>

datatype table_op =
    Allocate Address ExternalPointerTag
  | AllocateEvacuation "32 word"
  | Free "32 word"

fun run_op ::
  "(ExternalPointerTable \<Rightarrow> error + (32 word \<times> ExternalPointerTable)) \<Rightarrow> table_op
     \<Rightarrow> ExternalPointerTable \<Rightarrow> (error + ExternalPointerTable) option" where
  "run_op Grow (Allocate initial_value tag) s =
     (case AllocateAndInitializeEntry Grow initial_value tag (s, []) of
        None \<Rightarrow> None
      | Some (Inl e) \<Rightarrow> Some (Inl e)
      | Some (Inr (handle, x)) \<Rightarrow> Some (Inr (fst x)))"
| "run_op Grow (AllocateEvacuation start_of_evacuation_area) s =
     (case AllocateEvacuationEntry start_of_evacuation_area (s, []) of
        Inl e \<Rightarrow> Some (Inl e)
      | Inr (handle, x) \<Rightarrow> Some (Inr (fst x)))"
| "run_op Grow (Free index) s = Some (Inr (FreeEntry index s))"

fun run_ops ::
  "(ExternalPointerTable \<Rightarrow> error + (32 word \<times> ExternalPointerTable)) \<Rightarrow> table_op list
     \<Rightarrow> ExternalPointerTable \<Rightarrow> (error + ExternalPointerTable) option" where
  "run_ops Grow [] s = Some (Inr s)"
| "run_ops Grow (op # ops) s =
     (case run_op Grow op s of
        None \<Rightarrow> None
      | Some (Inl e) \<Rightarrow> Some (Inl e)
      | Some (Inr s') \<Rightarrow> run_ops Grow ops s')"

text \<open>
  A growth function for the runs below: it adds one entry to the table and makes it
  the freelist. And a run: a free, four allocations of which the last one grows the
  table, and a free.
\<close>

definition demo_Grow :: "ExternalPointerTable \<Rightarrow> error + (32 word \<times> ExternalPointerTable)" where
  "demo_Grow s =
     (if 1 \<le> capacity_m s \<and> capacity_m s < 0x1000000
      then Inr (capacity_m s,
                s\<lparr>buffer_m := (buffer_m s)(capacity_m s := MakeFreelistEntry 0 1),
                  capacity_m := capacity_m s + 1,
                  freelist_head_m := capacity_m s\<rparr>)
      else Inl OutOfMemory)"


definition demo_ops :: "table_op list" where
  "demo_ops = [Free 6, AllocateEvacuation 8, Allocate 0x3000 0x0003000000000000,
               Allocate 0x3000 0x0003000000000000, Allocate 0x3000 0x0003000000000000, Free 2]"

section \<open>Properties\<close>

subsection \<open>Bits of an entry\<close>

lemma and_mask_of_subset: "(t::64 word) AND NOT m = 0 \<Longrightarrow> t AND m = t"
  by (auto simp: bit_eq_iff bit_and_iff bit_not_iff dest: bit_imp_le_length)

lemma stored_tag:
  "(v::64 word) AND m = 0 \<Longrightarrow> t AND NOT m = 0 \<Longrightarrow> (v OR t) AND m = t"
  by (simp add: and_mask_of_subset bit.conj_disj_distrib2)

lemma untag_back:
  "(v::64 word) AND m = 0 \<Longrightarrow> t AND NOT m = 0 \<Longrightarrow> (v OR t) AND NOT t = v"
  by (auto simp: bit_eq_iff bit_and_iff bit_not_iff bit_or_iff dest: bit_imp_le_length)

lemma regular_of_pointer_tag:
  "v AND kExternalPointerTagMask = 0 \<Longrightarrow> IsPointerTag tag
     \<Longrightarrow> IsRegularEntry (MakeRegularEntry v tag)"
  by (simp add: IsRegularEntry_def IsFreelistEntry_def IsEvacuationEntry_def HasTag_def
      MakeRegularEntry_def IsPointerTag_def stored_tag)

lemma HandleToIndex_IndexToHandle: "HandleToIndex (IndexToHandle i) = take_bit 24 i"
  unfolding HandleToIndex_def IndexToHandle_def kExternalPointerIndexShift_def
  by (rule bit_word_eqI) (auto simp: bit_simps)

lemma HandleToIndex_less: "HandleToIndex h < 0x1000000"
proof -
  have "unat h < 2 ^ 32" using unsigned_less [of h] by simp
  then have "unat h div 256 < 16777216" by simp
  then show ?thesis
    by (simp add: HandleToIndex_def kExternalPointerIndexShift_def word_less_nat_alt
        unat_drop_bit_eq drop_bit_eq_div unat_div)
qed

lemma take_bit_24_id: "(i::32 word) < 0x1000000 \<Longrightarrow> take_bit 24 i = i"
  using less_mask_eq [of i 24] by (simp add: take_bit_eq_mask)

lemma IndexToHandle_nonzero:
  assumes "i \<noteq> 0" "i < 0x1000000" shows "IndexToHandle i \<noteq> 0"
proof
  assume "IndexToHandle i = 0"
  then have "HandleToIndex (IndexToHandle i) = 0" by (simp add: HandleToIndex_def)
  with assms show False by (simp add: HandleToIndex_IndexToHandle take_bit_24_id)
qed

lemma IsMarked_SetMarkBit: "IsMarked (SetMarkBit e)"
  by (simp add: IsMarked_def SetMarkBit_def kExternalPointerMarkBit_def)

lemma marked_tag_not_reserved:
  assumes "e AND kExternalPointerMarkBit \<noteq> 0"
  shows "e AND kExternalPointerTagMask \<noteq> kExternalPointerFreeEntryTag"
    and "e AND kExternalPointerTagMask \<noteq> kExternalPointerEvacuationEntryTag"
proof -
  have m: "(e AND kExternalPointerTagMask) AND kExternalPointerMarkBit = e AND kExternalPointerMarkBit"
    by (simp add: and.assoc kExternalPointerTagMask_def kExternalPointerMarkBit_def)
  show "e AND kExternalPointerTagMask \<noteq> kExternalPointerFreeEntryTag"
  proof
    assume "e AND kExternalPointerTagMask = kExternalPointerFreeEntryTag"
    with m have "kExternalPointerFreeEntryTag AND kExternalPointerMarkBit = e AND kExternalPointerMarkBit"
      by simp
    with assms show False
      by (simp add: kExternalPointerFreeEntryTag_def kExternalPointerMarkBit_def)
  qed
  show "e AND kExternalPointerTagMask \<noteq> kExternalPointerEvacuationEntryTag"
  proof
    assume "e AND kExternalPointerTagMask = kExternalPointerEvacuationEntryTag"
    with m have "kExternalPointerEvacuationEntryTag AND kExternalPointerMarkBit = e AND kExternalPointerMarkBit"
      by simp
    with assms show False
      by (simp add: kExternalPointerEvacuationEntryTag_def kExternalPointerMarkBit_def)
  qed
qed

lemma IsMarked_IsRegularEntry: "IsMarked e \<Longrightarrow> IsRegularEntry e"
  using marked_tag_not_reserved [of e]
  by (simp add: IsMarked_def IsRegularEntry_def IsFreelistEntry_def IsEvacuationEntry_def HasTag_def)

lemma IsRegularEntry_SetMarkBit: "IsRegularEntry (SetMarkBit e)"
  by (rule IsMarked_IsRegularEntry) (rule IsMarked_SetMarkBit)

lemma IsEvacuationEntry_MakeEvacuationEntry:
  "a AND kExternalPointerTagMask = 0 \<Longrightarrow> IsEvacuationEntry (MakeEvacuationEntry a)"
  unfolding IsEvacuationEntry_def HasTag_def MakeEvacuationEntry_def
  by (rule stored_tag)
    (simp_all add: kExternalPointerEvacuationEntryTag_def kExternalPointerTagMask_def)

lemma ExtractHandleLocation_MakeEvacuationEntry:
  assumes "a AND kExternalPointerTagMask = 0"
  shows "ExtractHandleLocation (MakeEvacuationEntry a) = a"
proof -
  have "kExternalPointerEvacuationEntryTag AND NOT kExternalPointerTagMask = 0"
    by (simp add: kExternalPointerEvacuationEntryTag_def kExternalPointerTagMask_def)
  moreover have "a AND NOT kExternalPointerTagMask = a"
    using assms by (auto simp: bit_eq_iff bit_and_iff bit_not_iff dest: bit_imp_le_length)
  ultimately show ?thesis
    by (simp add: ExtractHandleLocation_def MakeEvacuationEntry_def bit.conj_disj_distrib2)
qed
lemma kFreelistNextMask_mask: "kFreelistNextMask = mask 24"
  by (simp add: kFreelistNextMask_def mask_eq_exp_minus_1)

lemma kExternalPointerTagMask_mask: "kExternalPointerTagMask = push_bit 48 (mask 16)"
  by (simp add: kExternalPointerTagMask_def mask_eq_exp_minus_1 push_bit_eq_mult)

lemma kExternalPointerFreeEntryTag_mask: "kExternalPointerFreeEntryTag = push_bit 48 (mask 8)"
  by (simp add: kExternalPointerFreeEntryTag_def mask_eq_exp_minus_1 push_bit_eq_mult)

lemma IsFreelistEntry_MakeFreelistEntry: "IsFreelistEntry (MakeFreelistEntry n sz)"
  unfolding IsFreelistEntry_def HasTag_def MakeFreelistEntry_def kFreelistNextMask_mask
    kExternalPointerTagMask_mask kExternalPointerFreeEntryTag_mask kFreelistSizeShift_def
  by (rule bit_word_eqI) (auto simp: bit_simps)

lemma ExtractNextFreelistEntry_MakeFreelistEntry:
  "ExtractNextFreelistEntry (MakeFreelistEntry n sz) = take_bit 24 n"
  unfolding ExtractNextFreelistEntry_def MakeFreelistEntry_def kFreelistNextMask_mask
    kExternalPointerFreeEntryTag_mask kFreelistSizeShift_def
  by (rule bit_word_eqI) (auto simp: bit_simps)

lemma ExtractFreelistSize_MakeFreelistEntry:
  "ExtractFreelistSize (MakeFreelistEntry n sz) = take_bit 24 sz"
  unfolding ExtractFreelistSize_def MakeFreelistEntry_def kFreelistNextMask_mask
    kExternalPointerFreeEntryTag_mask kFreelistSizeShift_def
  by (rule bit_word_eqI) (auto simp: bit_simps)

subsection \<open>Get, Set and Exchange\<close>

text \<open>
  C1. Let the entry of a handle be written as a regular entry with a value \<open>v\<close> and a
  tag \<open>t1\<close> of the tag space: by \<^verbatim>\<open>Set\<close>, by \<^verbatim>\<open>Exchange\<close>, or as the entry that
  these and \<^verbatim>\<open>AllocateAndInitializeEntry\<close> store for a value with no bit under the
  tag mask. Then for every tag \<open>t2\<close> other than \<open>t1\<close>, \<^verbatim>\<open>Get\<close> aborts on the tag
  check, \<^verbatim>\<open>Exchange\<close> returns no value for any new value, and aborts on the tag
  check whenever its own preconditions hold: the raw pointer is never returned.
\<close>

theorem tag_mismatch_aborts:
  assumes "Set handle v t1 s0 = Inr s
      \<or> Exchange handle v t1 s0 = Inr (old_value, s)
      \<or> (buffer_m s (HandleToIndex handle) = MakeRegularEntry v t1
           \<and> v AND kExternalPointerTagMask = 0)"
    and "IsPointerTag t1"
    and "t2 \<noteq> t1"
  shows "Get handle t2 s = Inl TagMismatch
    \<and> (\<exists>e. Exchange handle v2 t2 s = Inl e)
    \<and> (handle \<noteq> kNullExternalPointerHandle \<and> v2 AND kExternalPointerTagMask = 0
         \<and> t2 AND kExternalPointerMarkBit \<noteq> 0
       \<longrightarrow> Exchange handle v2 t2 s = Inl TagMismatch)"
proof -
  from assms(1) have w: "buffer_m s (HandleToIndex handle) = MakeRegularEntry v t1"
    and v: "v AND kExternalPointerTagMask = 0"
    by (auto simp: Set_def Exchange_def RelaxedStore_def RelaxedExchange_def Let_def
        split: if_splits sum.splits)
  have reg: "IsRegularEntry (MakeRegularEntry v t1)"
    using v assms(2) by (rule regular_of_pointer_tag)
  have "MakeRegularEntry v t1 AND kExternalPointerTagMask = t1"
    using v assms(2) by (simp add: MakeRegularEntry_def IsPointerTag_def stored_tag)
  then have no: "\<not> HasTag (MakeRegularEntry v t1) t2"
    using assms(3) by (simp add: HasTag_def)
  show ?thesis
    using w reg no
    by (simp add: Get_def Exchange_def RelaxedLoad_def RelaxedExchange_def Untag_def)
qed

theorem tag_mismatch_aborts_witness:
  "Set 0x600 0x2000 0x8001000000000000 demo_table = Inr demo_table_set
   \<and> IsPointerTag 0x8001000000000000
   \<and> (0x8002000000000000 :: 64 word) \<noteq> 0x8001000000000000
   \<and> (0x600 :: 32 word) \<noteq> kNullExternalPointerHandle
   \<and> (0x3000 :: 64 word) AND kExternalPointerTagMask = 0
   \<and> (0x8002000000000000 :: 64 word) AND kExternalPointerMarkBit \<noteq> 0
   \<and> Get 0x600 0x8002000000000000 demo_table_set = Inl TagMismatch
   \<and> Exchange 0x600 0x3000 0x8002000000000000 demo_table_set = Inl TagMismatch"
proof -
  have a: "Set 0x600 0x2000 0x8001000000000000 demo_table = Inr demo_table_set"
    by (simp add: Set_def kNullExternalPointerHandle_def kExternalPointerTagMask_def
        kExternalPointerMarkBit_def HandleToIndex_def kExternalPointerIndexShift_def
        MakeRegularEntry_def RelaxedStore_def drop_bit_eq_div demo_table_set_def)
  have b: "IsPointerTag 0x8001000000000000"
    "(0x8002000000000000 :: 64 word) \<noteq> 0x8001000000000000"
    "(0x600 :: 32 word) \<noteq> kNullExternalPointerHandle"
    "(0x3000 :: 64 word) AND kExternalPointerTagMask = 0"
    "(0x8002000000000000 :: 64 word) AND kExternalPointerMarkBit \<noteq> 0"
    by (simp_all add: kExternalPointerTagMask_def IsPointerTag_def
        kExternalPointerFreeEntryTag_def kExternalPointerEvacuationEntryTag_def
        kNullExternalPointerHandle_def kExternalPointerMarkBit_def)
  from a b tag_mismatch_aborts [where handle = "0x600" and v = "0x2000"
      and ?t1.0 = "0x8001000000000000" and ?s0.0 = demo_table and s = demo_table_set
      and ?t2.0 = "0x8002000000000000" and ?v2.0 = "0x3000"]
  show ?thesis by simp
qed

text \<open>
  C2. For every non-null handle, every value with no bit under the tag mask and every
  tag of the tag space that carries the mark bit, \<^verbatim>\<open>Set\<close> returns and \<^verbatim>\<open>Get\<close> on
  the state it leaves, with the same handle and tag, returns the value stored.
\<close>

theorem Set_Get_roundtrip:
  assumes "handle \<noteq> kNullExternalPointerHandle"
    and "v AND kExternalPointerTagMask = 0"
    and "tag AND kExternalPointerMarkBit \<noteq> 0"
    and "IsPointerTag tag"
  shows "\<exists>s'. Set handle v tag s = Inr s' \<and> Get handle tag s' = Inr v"
  using assms regular_of_pointer_tag [of v tag]
  by (simp add: Set_def Get_def RelaxedStore_def RelaxedLoad_def Untag_def HasTag_def
      MakeRegularEntry_def IsPointerTag_def stored_tag untag_back)

theorem Set_Get_roundtrip_witness:
  "(0x600 :: 32 word) \<noteq> kNullExternalPointerHandle
   \<and> (0x2000 :: 64 word) AND kExternalPointerTagMask = 0
   \<and> (0x8002000000000000 :: 64 word) AND kExternalPointerMarkBit \<noteq> 0
   \<and> IsPointerTag 0x8002000000000000
   \<and> (\<exists>s'. Set 0x600 0x2000 0x8002000000000000 demo_table = Inr s'
            \<and> Get 0x600 0x8002000000000000 s' = Inr 0x2000)"
  using Set_Get_roundtrip [of "0x600" "0x2000" "0x8002000000000000" demo_table]
  by (simp add: kNullExternalPointerHandle_def kExternalPointerTagMask_def
      kExternalPointerMarkBit_def IsPointerTag_def kExternalPointerFreeEntryTag_def
      kExternalPointerEvacuationEntryTag_def)

text \<open>
  C9. A call of \<^verbatim>\<open>Set\<close> or \<^verbatim>\<open>Exchange\<close> that returns leaves every entry at an
  index other than the handle's as it was, and leaves \<^verbatim>\<open>freelist_head_\<close>, the
  evacuation boundary, the capacity and the heap as they were.
\<close>

theorem Set_Exchange_frame:
  "(Set handle v tag s = Inr s' \<longrightarrow>
      (\<forall>j. j \<noteq> HandleToIndex handle \<longrightarrow> buffer_m s' j = buffer_m s j)
      \<and> freelist_head_m s' = freelist_head_m s
      \<and> start_of_evacuation_area_m s' = start_of_evacuation_area_m s
      \<and> capacity_m s' = capacity_m s \<and> heap_m s' = heap_m s
      \<and> is_initialized_m s' = is_initialized_m s)
   \<and> (Exchange handle v tag s = Inr (old_value, s'') \<longrightarrow>
      (\<forall>j. j \<noteq> HandleToIndex handle \<longrightarrow> buffer_m s'' j = buffer_m s j)
      \<and> freelist_head_m s'' = freelist_head_m s
      \<and> start_of_evacuation_area_m s'' = start_of_evacuation_area_m s
      \<and> capacity_m s'' = capacity_m s \<and> heap_m s'' = heap_m s
      \<and> is_initialized_m s'' = is_initialized_m s)"
  by (auto simp: Set_def Exchange_def RelaxedStore_def RelaxedExchange_def Let_def
      split: if_splits sum.splits)

theorem Set_Exchange_frame_witness:
  "Set 0x600 0x2000 0x8001000000000000 demo_table = Inr demo_table_set
   \<and> Exchange 0x600 0x2000 0x8001000000000000 demo_table = Inr (0x1000, demo_table_set)
   \<and> (1 :: 32 word) \<noteq> HandleToIndex 0x600
   \<and> buffer_m demo_table_set 1 = buffer_m demo_table 1
   \<and> freelist_head_m demo_table_set = freelist_head_m demo_table
   \<and> start_of_evacuation_area_m demo_table_set = start_of_evacuation_area_m demo_table"
proof -
  have a: "Set 0x600 0x2000 0x8001000000000000 demo_table = Inr demo_table_set"
    by (simp add: Set_def kNullExternalPointerHandle_def kExternalPointerTagMask_def
        kExternalPointerMarkBit_def HandleToIndex_def kExternalPointerIndexShift_def
        MakeRegularEntry_def RelaxedStore_def drop_bit_eq_div demo_table_set_def)
  have b: "Exchange 0x600 0x2000 0x8001000000000000 demo_table = Inr (0x1000, demo_table_set)"
    by (simp add: Exchange_def kNullExternalPointerHandle_def kExternalPointerTagMask_def
        kExternalPointerMarkBit_def HandleToIndex_def kExternalPointerIndexShift_def
        MakeRegularEntry_def RelaxedExchange_def drop_bit_eq_div demo_table_def
        IsRegularEntry_def IsFreelistEntry_def IsEvacuationEntry_def HasTag_def Untag_def
        kExternalPointerFreeEntryTag_def kExternalPointerEvacuationEntryTag_def
        demo_table_set_def)
  show ?thesis
    using a b
      Set_Exchange_frame [where handle = "0x600" and v = "0x2000" and tag = "0x8001000000000000"
        and s = demo_table and s' = demo_table_set and old_value = "0x1000"
        and s'' = demo_table_set]
    by (simp add: HandleToIndex_def kExternalPointerIndexShift_def drop_bit_eq_div)
qed

subsection \<open>The freelist allocator\<close>

lemma HandleToIndex_IndexToHandle_le: "HandleToIndex (IndexToHandle i) \<le> i"
  by (simp add: HandleToIndex_IndexToHandle take_bit_eq_mask word_and_le2)

lemma Try_alone:
  "TryAllocateEntryFromFreelist h (s, []) =
     (if h = 0 then Inl FreelistHeadIsZero
      else if \<not> h < capacity_m s then Inl FreelistHeadOutOfCapacity
      else if freelist_head_m s \<noteq> h then Inr (False, (s, []))
      else if \<not> IsFreelistEntry (buffer_m s h) then Inl ClaimedNonFreelistEntry
      else Inr (True, (s\<lparr>freelist_head_m := ExtractNextFreelistEntry (buffer_m s h)\<rparr>, [])))"
  by (simp add: TryAllocateEntryFromFreelist_def Relaxed_CompareAndSwap_freelist_head_def
      RelaxedLoad_def Let_def)

lemma AllocateEvacuationEntry_alone:
  "AllocateEvacuationEntry start (s, []) =
     (if \<not> is_initialized_m s then Inl NotInitialized
      else if freelist_head_m s = 0 \<or> start \<le> freelist_head_m s
        then Inr (kNullExternalPointerHandle, (s, []))
      else if \<not> freelist_head_m s < capacity_m s then Inl FreelistHeadOutOfCapacity
      else if \<not> IsFreelistEntry (buffer_m s (freelist_head_m s)) then Inl ClaimedNonFreelistEntry
      else Inr (IndexToHandle (freelist_head_m s),
                (s\<lparr>freelist_head_m := ExtractNextFreelistEntry (buffer_m s (freelist_head_m s))\<rparr>, [])))"
  by (subst AllocateEvacuationEntry_def, subst AllocateEvacuationEntry_loop.simps)
    (simp add: Try_alone Let_def)

lemma Try_frame:
  assumes "TryAllocateEntryFromFreelist h x = Inr (b, x')"
    and "\<forall>f\<in>set (snd x). \<forall>s. capacity_m (f s) = capacity_m s \<and> buffer_m (f s) = buffer_m s"
  shows "capacity_m (fst x') = capacity_m (fst x) \<and> buffer_m (fst x') = buffer_m (fst x)
     \<and> set (snd x') \<subseteq> set (snd x)"
  using assms
  by (cases x rule: yield.cases)
    (auto simp: TryAllocateEntryFromFreelist_def Relaxed_CompareAndSwap_freelist_head_def
      Let_def split: if_splits prod.splits)

lemma yield_frame:
  assumes "\<forall>f\<in>set (snd x). \<forall>s. capacity_m (f s) = capacity_m s \<and> buffer_m (f s) = buffer_m s"
  shows "capacity_m (fst (yield x)) = capacity_m (fst x) \<and> buffer_m (fst (yield x)) = buffer_m (fst x)
     \<and> set (snd (yield x)) \<subseteq> set (snd x)"
  using assms by (cases x rule: yield.cases) auto

lemma loop_below:
  "AllocateEvacuationEntry_loop start x = Inr (h, x') \<Longrightarrow> h \<noteq> kNullExternalPointerHandle
     \<Longrightarrow> HandleToIndex h < start"
proof (induction start x rule: AllocateEvacuationEntry_loop.induct)
  case (1 start x)
  from "1.prems" show ?case
    apply (subst (asm) AllocateEvacuationEntry_loop.simps)
    apply (simp add: Let_def split: if_splits sum.splits prod.splits)
    subgoal using HandleToIndex_IndexToHandle_le [of "freelist_head_m (fst x)"] by auto
    subgoal for b x2 using "1.IH" by auto
    done
qed

lemma loop_frame:
  "AllocateEvacuationEntry_loop start x = Inr (h, x') \<Longrightarrow>
   \<forall>f\<in>set (snd x). \<forall>s. capacity_m (f s) = capacity_m s \<and> buffer_m (f s) = buffer_m s \<Longrightarrow>
   capacity_m (fst x') = capacity_m (fst x) \<and> buffer_m (fst x') = buffer_m (fst x)"
proof (induction start x arbitrary: h x' rule: AllocateEvacuationEntry_loop.induct)
  case (1 start x)
  let ?P = "\<lambda>y. \<forall>f\<in>set (snd y). \<forall>s. capacity_m (f s) = capacity_m s \<and> buffer_m (f s) = buffer_m s"
  let ?h = "freelist_head_m (fst x)"
  show ?case
  proof (cases "?h = 0 \<or> start \<le> ?h")
    case True
    with "1.prems"(1) show ?thesis
      by (subst (asm) AllocateEvacuationEntry_loop.simps) (auto simp: Let_def)
  next
    case False
    from "1.prems"(2) have y: "capacity_m (fst (yield x)) = capacity_m (fst x)"
        "buffer_m (fst (yield x)) = buffer_m (fst x)" "?P (yield x)"
      using yield_frame [of x] by auto
    from False "1.prems"(1) obtain b x2 where
      t: "TryAllocateEntryFromFreelist ?h (yield x) = Inr (b, x2)"
      and r: "if b then Inr (IndexToHandle ?h, x2) = Inr (h, x')
              else AllocateEvacuationEntry_loop start (yield x2) = Inr (h, x')"
      by (subst (asm) AllocateEvacuationEntry_loop.simps)
        (auto simp: Let_def split: sum.splits prod.splits if_splits)
    from Try_frame [OF t y(3)] y have x2: "capacity_m (fst x2) = capacity_m (fst x)"
        "buffer_m (fst x2) = buffer_m (fst x)" "?P x2"
      by auto
    show ?thesis
    proof (cases b)
      case True
      with r x2 show ?thesis by simp
    next
      case nb: False
      from x2(3) have y2: "capacity_m (fst (yield x2)) = capacity_m (fst x2)"
        "buffer_m (fst (yield x2)) = buffer_m (fst x2)" "?P (yield x2)"
        using yield_frame [of x2] by auto
      from nb r have "AllocateEvacuationEntry_loop start (yield x2) = Inr (h, x')" by simp
      from "1.IH" [OF refl False t refl nb this y2(3)]
      show ?thesis using y2 x2 by simp
    qed
  qed
qed

text \<open>
  C5. \<^verbatim>\<open>AllocateEvacuationEntry\<close> returns the null handle, and leaves the state
  as it is, whenever the freelist head it loads is zero or at or above the boundary;
  a handle it returns, if not null, resolves to an index strictly below the boundary;
  and it never grows the table: with other threads that leave the capacity and the
  entries alone, the capacity and every entry are as before (the function only swaps
  \<^verbatim>\<open>freelist_head_\<close>). This holds under every interference.
\<close>
theorem AllocateEvacuationEntry_below_boundary:
  "(is_initialized_m (fst x)
      \<and> (freelist_head_m (fst x) = 0 \<or> start_of_evacuation_area \<le> freelist_head_m (fst x))
     \<longrightarrow> AllocateEvacuationEntry start_of_evacuation_area x
           = Inr (kNullExternalPointerHandle, x))
   \<and> (AllocateEvacuationEntry start_of_evacuation_area x = Inr (h, x') \<longrightarrow>
        (h \<noteq> kNullExternalPointerHandle \<longrightarrow> HandleToIndex h < start_of_evacuation_area)
        \<and> ((\<forall>f\<in>set (snd x). \<forall>s. capacity_m (f s) = capacity_m s \<and> buffer_m (f s) = buffer_m s)
             \<longrightarrow> capacity_m (fst x') = capacity_m (fst x) \<and> buffer_m (fst x') = buffer_m (fst x)))"
proof -
  have a: "AllocateEvacuationEntry start_of_evacuation_area x
           = Inr (kNullExternalPointerHandle, x)"
    if "is_initialized_m (fst x)"
      "freelist_head_m (fst x) = 0 \<or> start_of_evacuation_area \<le> freelist_head_m (fst x)"
    using that
    by (subst AllocateEvacuationEntry_def, subst AllocateEvacuationEntry_loop.simps)
      (auto simp: Let_def)
  have b: "HandleToIndex h < start_of_evacuation_area"
    if "AllocateEvacuationEntry start_of_evacuation_area x = Inr (h, x')"
      "h \<noteq> kNullExternalPointerHandle"
    using that loop_below [of start_of_evacuation_area x h x']
    by (auto simp: AllocateEvacuationEntry_def split: if_splits)
  have c: "capacity_m (fst x') = capacity_m (fst x) \<and> buffer_m (fst x') = buffer_m (fst x)"
    if "AllocateEvacuationEntry start_of_evacuation_area x = Inr (h, x')"
      "\<forall>f\<in>set (snd x). \<forall>s. capacity_m (f s) = capacity_m s \<and> buffer_m (f s) = buffer_m s"
    using that loop_frame [of start_of_evacuation_area x h x']
    by (auto simp: AllocateEvacuationEntry_def split: if_splits)
  from a b c show ?thesis by blast
qed

theorem AllocateEvacuationEntry_below_boundary_witness:
  "is_initialized_m (fst (demo_table, []))
   \<and> (1 :: 32 word) \<le> freelist_head_m (fst (demo_table, []))
   \<and> AllocateEvacuationEntry 1 (demo_table, []) = Inr (kNullExternalPointerHandle, (demo_table, []))
   \<and> AllocateEvacuationEntry 4 (demo_table, [])
       = Inr (0x100, (demo_table\<lparr>freelist_head_m := 2\<rparr>, []))
   \<and> (0x100 :: 32 word) \<noteq> kNullExternalPointerHandle
   \<and> HandleToIndex 0x100 < 4
   \<and> capacity_m (demo_table\<lparr>freelist_head_m := 2\<rparr>) = capacity_m demo_table
   \<and> buffer_m (demo_table\<lparr>freelist_head_m := 2\<rparr>) = buffer_m demo_table"
proof -
  have a: "AllocateEvacuationEntry 4 (demo_table, [])
       = Inr (0x100, (demo_table\<lparr>freelist_head_m := 2\<rparr>, []))"
    by (simp add: AllocateEvacuationEntry_alone demo_table_def
        IsFreelistEntry_MakeFreelistEntry ExtractNextFreelistEntry_MakeFreelistEntry
        IndexToHandle_def kExternalPointerIndexShift_def push_bit_eq_mult
        word_le_nat_alt word_less_nat_alt)
  have b: "is_initialized_m (fst (demo_table, []))
      \<and> (1 :: 32 word) \<le> freelist_head_m (fst (demo_table, []))"
    by (simp add: demo_table_def)
  have c: "(0x100 :: 32 word) \<noteq> kNullExternalPointerHandle"
    by (simp add: kNullExternalPointerHandle_def)
  show ?thesis
    using a b c
      AllocateEvacuationEntry_below_boundary [of "(demo_table, [])" 1]
      AllocateEvacuationEntry_below_boundary [of "(demo_table, [])" 4 "0x100"
        "(demo_table\<lparr>freelist_head_m := 2\<rparr>, [])"]
    by (simp add: word_le_nat_alt word_less_nat_alt)
qed

lemma freelist_chain_head_update [simp]:
  "freelist_chain (s\<lparr>freelist_head_m := v\<rparr>) h xs = freelist_chain s h xs"
  by (induction xs arbitrary: h) auto

lemma Try_result:
  assumes "TryAllocateEntryFromFreelist h x = Inr (b, x')"
  shows "b = (freelist_head_m (fst (yield x)) = h)
    \<and> x' = (if b then ((fst (yield x))\<lparr>freelist_head_m := ExtractNextFreelistEntry (buffer_m (fst x) h)\<rparr>,
                      snd (yield x))
          else yield x)
    \<and> (b \<longrightarrow> IsFreelistEntry (buffer_m (fst x) h))"
  using assms
  by (auto simp: TryAllocateEntryFromFreelist_def Relaxed_CompareAndSwap_freelist_head_def
      RelaxedLoad_def Let_def split: if_splits)

lemma Try_returns:
  assumes "h \<noteq> 0" "h < capacity_m (fst x)" "IsFreelistEntry (buffer_m (fst x) h)"
  shows "\<exists>b x'. TryAllocateEntryFromFreelist h x = Inr (b, x')"
  using assms
  by (auto simp: TryAllocateEntryFromFreelist_def Relaxed_CompareAndSwap_freelist_head_def
      RelaxedLoad_def Let_def split: if_splits)

lemma claims_distinct:
  assumes "freelist_chain s (freelist_head_m s) xs" "distinct xs"
    and "claims_in_turn hs s = Inr (bs, s')"
  shows "length bs = length hs
     \<and> set (map fst (filter snd (zip hs bs))) \<subseteq> set xs
     \<and> distinct (map fst (filter snd (zip hs bs)))"
  using assms
proof (induction hs arbitrary: s xs bs)
  case Nil
  then show ?case by simp
next
  case (Cons h hs)
  from Cons.prems(3) obtain b x bs' where
    t: "TryAllocateEntryFromFreelist h (s, []) = Inr (b, x)"
    and r: "claims_in_turn hs (fst x) = Inr (bs', s')" and bs: "bs = b # bs'"
    by (auto split: sum.splits prod.splits)
  show ?case
  proof (cases b)
    case False
    with t have "fst x = s" by (auto simp: Try_alone split: if_splits)
    with Cons.IH [OF Cons.prems(1,2)] r bs False show ?thesis by simp
  next
    case True
    with t have h: "freelist_head_m s = h" "h \<noteq> 0"
      and x: "fst x = s\<lparr>freelist_head_m := ExtractNextFreelistEntry (buffer_m s h)\<rparr>"
      by (auto simp: Try_alone split: if_splits)
    from h Cons.prems(1) obtain rest where xs: "xs = h # rest"
      and c: "freelist_chain s (ExtractNextFreelistEntry (buffer_m s h)) rest"
      by (cases xs) auto
    from c have "freelist_chain (fst x) (freelist_head_m (fst x)) rest"
      by (simp add: x)
    moreover from Cons.prems(2) xs have "distinct rest" "h \<notin> set rest" by auto
    ultimately show ?thesis
      using Cons.IH [of "fst x" rest bs'] r bs True xs by auto
  qed
qed


lemma Try_lost_race:
  assumes "freelist_head_m s = h" "h \<noteq> 0" "h < capacity_m s"
    "IsFreelistEntry (buffer_m s h)" "ExtractNextFreelistEntry (buffer_m s h) \<noteq> h"
  shows "TryAllocateEntryFromFreelist h (s, [Claim_by_another_thread h])
     = Inr (False, (s\<lparr>freelist_head_m := ExtractNextFreelistEntry (buffer_m s h)\<rparr>, []))"
  using assms
  by (simp add: TryAllocateEntryFromFreelist_def Claim_by_another_thread_def Try_alone
      Relaxed_CompareAndSwap_freelist_head_def RelaxedLoad_def Let_def)

text \<open>
  C7. \<^verbatim>\<open>TryAllocateEntryFromFreelist\<close> loads the entry at the expected head, lets
  the other threads run, and compares and swaps \<^verbatim>\<open>freelist_head_\<close> to the next
  index of the entry loaded. When it returns, it returns true exactly when
  \<^verbatim>\<open>freelist_head_\<close> still was the expected head at the swap, the head is then the
  next index and the entry loaded was a freelist entry; otherwise nothing is written.
  On a freelist entry below the capacity it does return. So a claim that another
  thread wins in between makes this one fail, and in any run of claims on an acyclic
  freelist the nodes claimed with success are pairwise distinct: no node is claimed
  twice.
\<close>

theorem TryAllocateEntryFromFreelist_claims_once:
  "(TryAllocateEntryFromFreelist h x = Inr (b, x') \<longrightarrow>
      b = (freelist_head_m (fst (yield x)) = h)
      \<and> x' = (if b then ((fst (yield x))\<lparr>freelist_head_m :=
                           ExtractNextFreelistEntry (buffer_m (fst x) h)\<rparr>, snd (yield x))
              else yield x)
      \<and> (b \<longrightarrow> IsFreelistEntry (buffer_m (fst x) h)))
   \<and> (h \<noteq> 0 \<and> h < capacity_m (fst x) \<and> IsFreelistEntry (buffer_m (fst x) h) \<longrightarrow>
        (\<exists>b x'. TryAllocateEntryFromFreelist h x = Inr (b, x')))
   \<and> (freelist_head_m s = h \<and> h \<noteq> 0 \<and> h < capacity_m s
        \<and> IsFreelistEntry (buffer_m s h) \<and> ExtractNextFreelistEntry (buffer_m s h) \<noteq> h \<longrightarrow>
        TryAllocateEntryFromFreelist h (s, [Claim_by_another_thread h])
          = Inr (False, (s\<lparr>freelist_head_m := ExtractNextFreelistEntry (buffer_m s h)\<rparr>, [])))
   \<and> (freelist_chain s (freelist_head_m s) xs \<and> distinct xs
        \<and> claims_in_turn hs s = Inr (bs, s') \<longrightarrow>
        distinct (map fst (filter snd (zip hs bs))))"
  using Try_result [of h x b x'] Try_returns [of h x] Try_lost_race [of s h]
    claims_distinct [of s xs hs bs s']
  by blast

theorem TryAllocateEntryFromFreelist_claims_once_witness:
  "TryAllocateEntryFromFreelist 1 (demo_table, [])
     = Inr (True, (demo_table\<lparr>freelist_head_m := 2\<rparr>, []))
   \<and> freelist_head_m (fst (yield (demo_table, []))) = 1
   \<and> IsFreelistEntry (buffer_m (fst (demo_table, [])) 1)
   \<and> (1 :: 32 word) \<noteq> 0 \<and> 1 < capacity_m demo_table
   \<and> ExtractNextFreelistEntry (buffer_m demo_table 1) = 2
   \<and> TryAllocateEntryFromFreelist 1 (demo_table, [Claim_by_another_thread 1])
     = Inr (False, (demo_table\<lparr>freelist_head_m := 2\<rparr>, []))
   \<and> freelist_chain demo_table (freelist_head_m demo_table) [1, 2]
   \<and> distinct [1 :: 32 word, 2]
   \<and> claims_in_turn [1, 1, 2, 1] demo_table
     = Inr ([True, False, True, False], demo_table\<lparr>freelist_head_m := 0\<rparr>)
   \<and> distinct (map fst (filter snd (zip [1 :: 32 word, 1, 2, 1] [True, False, True, False])))"
proof -
  have f: "freelist_head_m demo_table = 1" "(1 :: 32 word) \<noteq> 0" "1 < capacity_m demo_table"
    "IsFreelistEntry (buffer_m demo_table 1)" "IsFreelistEntry (buffer_m demo_table 2)"
    "ExtractNextFreelistEntry (buffer_m demo_table 1) = 2"
    "ExtractNextFreelistEntry (buffer_m demo_table 2) = 0"
    "2 < capacity_m demo_table"
    by (simp_all add: demo_table_def IsFreelistEntry_MakeFreelistEntry
        ExtractNextFreelistEntry_MakeFreelistEntry word_less_nat_alt)
  have ch: "freelist_chain demo_table (freelist_head_m demo_table) [1, 2]"
    by (simp add: f)
  have t: "TryAllocateEntryFromFreelist 1 (demo_table, [])
     = Inr (True, (demo_table\<lparr>freelist_head_m := 2\<rparr>, []))"
    by (simp add: Try_alone f)
  have cl: "claims_in_turn [1, 1, 2, 1] demo_table
     = Inr ([True, False, True, False], demo_table\<lparr>freelist_head_m := 0\<rparr>)"
    by (simp add: Try_alone f)
  note inst = TryAllocateEntryFromFreelist_claims_once [where h = 1 and x = "(demo_table, [])"
      and s = demo_table and xs = "[1, 2]" and hs = "[1, 1, 2, 1]"
      and bs = "[True, False, True, False]" and s' = "demo_table\<lparr>freelist_head_m := 0\<rparr>"
      and b = True and x' = "(demo_table\<lparr>freelist_head_m := 2\<rparr>, [])"]
  from inst f ch t cl show ?thesis by simp
qed

subsection \<open>Marking\<close>

lemma Mark_alone_below:
  assumes "heap_m s handle_location = handle"
    and "HandleToIndex handle < start_of_evacuation_area_m s"
    and "IsRegularEntry (buffer_m s (HandleToIndex handle))"
  shows "Mark handle handle_location (s, []) =
     Inr (s\<lparr>buffer_m := (buffer_m s)(HandleToIndex handle :=
                SetMarkBit (buffer_m s (HandleToIndex handle)))\<rparr>, [])"
proof -
  from assms(2) have "\<not> start_of_evacuation_area_m s \<le> HandleToIndex handle" by simp
  with assms show ?thesis
    by (simp add: Mark_def Let_def RelaxedLoad_def RelaxedCompareAndSwap_def)
qed

lemma IsCompacting_of_le:
  "start_of_evacuation_area_m s \<le> HandleToIndex handle \<Longrightarrow> IsCompacting s"
  using HandleToIndex_less [of handle]
  by (auto simp: IsCompacting_def kNotCompactingMarker_def word_le_nat_alt word_less_nat_alt)

lemma Mark_alone_abort:
  assumes "heap_m s handle_location = handle"
    and "start_of_evacuation_area_m s \<le> HandleToIndex handle"
    and "is_initialized_m s"
    and "freelist_head_m s = 0 \<or> start_of_evacuation_area_m s \<le> freelist_head_m s"
    and "IsRegularEntry (buffer_m s (HandleToIndex handle))"
  shows "Mark handle handle_location (s, []) =
     Inr (s\<lparr>start_of_evacuation_area_m :=
               start_of_evacuation_area_m s OR kCompactionAbortedMarker,
             buffer_m := (buffer_m s)(HandleToIndex handle :=
                SetMarkBit (buffer_m s (HandleToIndex handle)))\<rparr>, [])"
  using assms IsCompacting_of_le [of s handle]
  by (simp add: Mark_def Let_def RelaxedLoad_def RelaxedCompareAndSwap_def
      AllocateEvacuationEntry_alone kNullExternalPointerHandle_def)

lemma Mark_alone_evacuate:
  assumes "heap_m s handle_location = handle"
    and "start_of_evacuation_area_m s \<le> HandleToIndex handle"
    and "is_initialized_m s"
    and "freelist_head_m s \<noteq> 0"
    and "freelist_head_m s < start_of_evacuation_area_m s"
    and "freelist_head_m s < capacity_m s"
    and "IsFreelistEntry (buffer_m s (freelist_head_m s))"
    and "IsRegularEntry (buffer_m s (HandleToIndex handle))"
  shows "Mark handle handle_location (s, []) =
     Inr (s\<lparr>freelist_head_m := ExtractNextFreelistEntry (buffer_m s (freelist_head_m s)),
             buffer_m := (buffer_m s)
               (freelist_head_m s := MakeEvacuationEntry handle_location,
                HandleToIndex handle := SetMarkBit (buffer_m s (HandleToIndex handle))),
             heap_m := (heap_m s)(handle_location := handle OR kVisitedHandleMarker)\<rparr>, [])"
proof -
  have lt: "freelist_head_m s < 0x1000000"
    using assms(2,5) HandleToIndex_less [of handle] by simp
  have nz: "IndexToHandle (freelist_head_m s) \<noteq> 0"
    using assms(4) lt by (rule IndexToHandle_nonzero)
  have rt: "HandleToIndex (IndexToHandle (freelist_head_m s)) = freelist_head_m s"
    using lt by (simp add: HandleToIndex_IndexToHandle take_bit_24_id)
  have ne: "freelist_head_m s \<noteq> HandleToIndex handle"
    using assms(2,5) by auto
  show ?thesis
    using assms IsCompacting_of_le [of s handle] nz rt ne
    by (simp add: Mark_def Let_def RelaxedLoad_def RelaxedCompareAndSwap_def Store_def
        AllocateEvacuationEntry_alone kNullExternalPointerHandle_def fun_upd_twist)
qed

lemma sum_case_Inr_tail:
  "(case E of Inl e \<Rightarrow> Inl e | Inr y \<Rightarrow> T y) = Inr r \<Longrightarrow> \<exists>y. T y = Inr r"
  by (cases E) auto

lemma Mark_single_CAS:
  assumes "Mark handle handle_location x = Inr x'"
  shows "\<exists>x6. IsRegularEntry (buffer_m (fst x6) (HandleToIndex handle))
     \<and> x' = (snd (RelaxedCompareAndSwap (HandleToIndex handle)
                   (buffer_m (fst x6) (HandleToIndex handle))
                   (SetMarkBit (buffer_m (fst x6) (HandleToIndex handle)))
                   (fst (yield x6))),
             snd (yield x6))
     \<and> (buffer_m (fst (yield x6)) (HandleToIndex handle)
            = buffer_m (fst x6) (HandleToIndex handle)
          \<or> IsMarked (buffer_m (fst (yield x6)) (HandleToIndex handle)))"
proof (cases "heap_m (fst x) handle_location \<noteq> handle")
  case True
  with assms show ?thesis by (simp add: Mark_def)
next
  case False
  with assms show ?thesis
    apply (simp only: Mark_def Let_def if_False)
    apply (drule sum_case_Inr_tail)
    apply (erule exE)
    subgoal for y
      apply (rule exI [of _ "yield y"])
      apply (auto simp: RelaxedCompareAndSwap_def RelaxedLoad_def Let_def split: if_splits)
      done
    done
qed


lemma Mark_marked:
  assumes "Mark handle handle_location x = Inr x'"
  shows "IsMarked (buffer_m (fst x') (HandleToIndex handle))"
proof -
  from Mark_single_CAS [OF assms] obtain x6 where
    x': "x' = (snd (RelaxedCompareAndSwap (HandleToIndex handle)
                   (buffer_m (fst x6) (HandleToIndex handle))
                   (SetMarkBit (buffer_m (fst x6) (HandleToIndex handle)))
                   (fst (yield x6))),
             snd (yield x6))"
    and d: "buffer_m (fst (yield x6)) (HandleToIndex handle)
            = buffer_m (fst x6) (HandleToIndex handle)
          \<or> IsMarked (buffer_m (fst (yield x6)) (HandleToIndex handle))"
    by blast
  from d show ?thesis
    unfolding x' by (auto simp: RelaxedCompareAndSwap_def Let_def IsMarked_SetMarkBit)
qed

lemma kExternalPointerMarkBit_exp: "kExternalPointerMarkBit = 2 ^ 63"
  by (simp add: kExternalPointerMarkBit_def)

lemma IsMarked_bit: "IsMarked e \<longleftrightarrow> bit e 63"
  by (simp only: IsMarked_def kExternalPointerMarkBit_exp and_exp_eq_0_iff_not_bit not_not)

lemma SetMarkBit_marked: "IsMarked e \<Longrightarrow> SetMarkBit e = e"
  unfolding IsMarked_bit SetMarkBit_def kExternalPointerMarkBit_exp
  by (rule bit_word_eqI) (auto simp only: bit_or_iff bit_exp_iff)

lemma IsMarked_MakeRegularEntry:
  "tag AND kExternalPointerMarkBit \<noteq> 0 \<Longrightarrow> IsMarked (MakeRegularEntry v tag)"
  unfolding IsMarked_bit MakeRegularEntry_def kExternalPointerMarkBit_exp
  by (simp only: and_exp_eq_0_iff_not_bit not_not bit_or_iff) simp

lemma Mark_racing_write:
  assumes "heap_m s handle_location = handle"
    and "HandleToIndex handle < start_of_evacuation_area_m s"
    and "IsRegularEntry (buffer_m s (HandleToIndex handle))"
    and "f s = s\<lparr>buffer_m := (buffer_m s)(HandleToIndex handle := e)\<rparr>"
    and "IsMarked e"
  shows "Mark handle handle_location (s, (\<lambda>s. s) # (\<lambda>s. s) # f # fs)
     = Inr (s\<lparr>buffer_m := (buffer_m s)(HandleToIndex handle := e)\<rparr>, fs)"
proof -
  from assms(2) have n: "\<not> start_of_evacuation_area_m s \<le> HandleToIndex handle" by simp
  show ?thesis
  proof (cases "e = buffer_m s (HandleToIndex handle)")
    case True
    with assms(5) have "SetMarkBit (buffer_m s (HandleToIndex handle)) = buffer_m s (HandleToIndex handle)"
      by (simp add: SetMarkBit_marked)
    with assms n True [symmetric] show ?thesis
      by (simp add: Mark_def Let_def RelaxedLoad_def RelaxedCompareAndSwap_def)
  next
    case False
    with assms n show ?thesis
      by (simp add: Mark_def Let_def RelaxedLoad_def RelaxedCompareAndSwap_def)
  qed
qed

lemma Mark_racing_Set:
  assumes "heap_m s handle_location = handle"
    and "HandleToIndex handle < start_of_evacuation_area_m s"
    and "IsRegularEntry (buffer_m s (HandleToIndex handle))"
    and "handle \<noteq> kNullExternalPointerHandle"
    and "v AND kExternalPointerTagMask = 0"
    and "tag AND kExternalPointerMarkBit \<noteq> 0"
  shows "Mark handle handle_location
       (s, (\<lambda>s. s) # (\<lambda>s. s) # Set_by_another_thread handle v tag # fs)
     = Inr (s\<lparr>buffer_m := (buffer_m s)(HandleToIndex handle := MakeRegularEntry v tag)\<rparr>, fs)"
proof (rule Mark_racing_write [OF assms(1-3)])
  show "Set_by_another_thread handle v tag s
      = s\<lparr>buffer_m := (buffer_m s)(HandleToIndex handle := MakeRegularEntry v tag)\<rparr>"
    using assms(4-6) by (simp add: Set_by_another_thread_def Set_def RelaxedStore_def)
  show "IsMarked (MakeRegularEntry v tag)"
    using assms(6) by (rule IsMarked_MakeRegularEntry)
qed

lemma Mark_racing_Exchange:
  assumes "heap_m s handle_location = handle"
    and "HandleToIndex handle < start_of_evacuation_area_m s"
    and "IsRegularEntry (buffer_m s (HandleToIndex handle))"
    and "handle \<noteq> kNullExternalPointerHandle"
    and "v AND kExternalPointerTagMask = 0"
    and "tag AND kExternalPointerMarkBit \<noteq> 0"
  shows "Mark handle handle_location
       (s, (\<lambda>s. s) # (\<lambda>s. s) # Exchange_by_another_thread handle v tag # fs)
     = Inr (s\<lparr>buffer_m := (buffer_m s)(HandleToIndex handle := MakeRegularEntry v tag)\<rparr>, fs)"
proof (rule Mark_racing_write [OF assms(1-3)])
  show "Exchange_by_another_thread handle v tag s
      = s\<lparr>buffer_m := (buffer_m s)(HandleToIndex handle := MakeRegularEntry v tag)\<rparr>"
    using assms(4-6)
    by (simp add: Exchange_by_another_thread_def RelaxedExchange_def Let_def)
  show "IsMarked (MakeRegularEntry v tag)"
    using assms(6) by (rule IsMarked_MakeRegularEntry)
qed

lemma Exchange_returns_store:
  assumes "Exchange handle v tag s = Inr (old_value, s1)"
  shows "Exchange_by_another_thread handle v tag s = s1"
  using assms
  by (auto simp: Exchange_def Exchange_by_another_thread_def Let_def
      split: if_splits prod.splits sum.splits)

lemma Mark_racing_unmarked_write:
  assumes "heap_m s handle_location = handle"
    and "HandleToIndex handle < start_of_evacuation_area_m s"
    and "IsRegularEntry (buffer_m s (HandleToIndex handle))"
    and "f s = s\<lparr>buffer_m := (buffer_m s)(HandleToIndex handle := e)\<rparr>"
    and "e \<noteq> buffer_m s (HandleToIndex handle)"
    and "\<not> IsMarked e"
  shows "Mark handle handle_location (s, (\<lambda>s. s) # (\<lambda>s. s) # f # fs) = Inl MarkBitLost"
proof -
  from assms(2) have n: "\<not> start_of_evacuation_area_m s \<le> HandleToIndex handle" by simp
  with assms show ?thesis
    by (simp add: Mark_def Let_def RelaxedLoad_def RelaxedCompareAndSwap_def)
qed

lemma Mark_once_below:
  assumes "heap_m (fst x) handle_location = handle"
    and "\<not> start_of_evacuation_area_m (fst (yield x)) \<le> HandleToIndex handle"
  shows "Mark handle handle_location x = spec_mark_once (HandleToIndex handle) (yield x)"
  using assms
  by (simp add: Mark_def spec_mark_once_def Let_def RelaxedLoad_def RelaxedCompareAndSwap_def)

lemma Mark_once_abort:
  assumes "heap_m (fst x) handle_location = handle"
    and "start_of_evacuation_area_m (fst (yield x)) \<le> HandleToIndex handle"
    and "AllocateEvacuationEntry (start_of_evacuation_area_m (fst (yield x))) (yield (yield x))
           = Inr (kNullExternalPointerHandle, x2)"
  shows "Mark handle handle_location x =
     spec_mark_once (HandleToIndex handle)
       ((fst (yield x2))\<lparr>start_of_evacuation_area_m :=
            start_of_evacuation_area_m (fst (yield x)) OR kCompactionAbortedMarker\<rparr>,
        snd (yield x2))"
  using assms IsCompacting_of_le [of "fst (yield x)" handle]
  by (simp add: Mark_def spec_mark_once_def Let_def RelaxedLoad_def RelaxedCompareAndSwap_def
      kNullExternalPointerHandle_def)

lemma Mark_once_evacuate:
  assumes "heap_m (fst x) handle_location = handle"
    and "start_of_evacuation_area_m (fst (yield x)) \<le> HandleToIndex handle"
    and "AllocateEvacuationEntry (start_of_evacuation_area_m (fst (yield x))) (yield (yield x))
           = Inr (new_handle, x2)"
    and "new_handle \<noteq> kNullExternalPointerHandle"
  shows "Mark handle handle_location x =
     spec_mark_once (HandleToIndex handle)
       (let x3 = yield x2;
            x4 = yield (Store (HandleToIndex new_handle) (MakeEvacuationEntry handle_location)
                          (fst x3), snd x3)
        in ((fst x4)\<lparr>heap_m := (heap_m (fst x4))
               (handle_location := handle OR kVisitedHandleMarker)\<rparr>, snd x4))"
proof -
  from assms(3,4) have "HandleToIndex new_handle < start_of_evacuation_area_m (fst (yield x))"
    by (auto simp: AllocateEvacuationEntry_def split: if_splits dest: loop_below)
  with assms IsCompacting_of_le [of "fst (yield x)" handle] show ?thesis
    by (simp add: Mark_def spec_mark_once_def Let_def RelaxedLoad_def RelaxedCompareAndSwap_def
        kNullExternalPointerHandle_def)
qed

text \<open>
  C3. Whenever \<^verbatim>\<open>Mark\<close> returns, under every interference, the entry at the
  handle's index has its mark bit set. On every path, and under every interference,
  \<^verbatim>\<open>Mark\<close> ends as \<open>spec_mark_once\<close> does, started in the state that the evacuation
  step leaves (the state itself when the index is below the boundary, the state with
  the aborted boundary when \<^verbatim>\<open>AllocateEvacuationEntry\<close> returned the null handle, the
  state with the evacuation entry and the visited handle otherwise): one load of the
  entry and one compare-and-swap of its marked copy, two windows for the other threads,
  and after a swap that failed no further write and no further window. Run alone on a
  regular entry below the evacuation area, \<^verbatim>\<open>Mark\<close> returns with the marked copy
  installed. With a \<^verbatim>\<open>Set\<close> or an \<^verbatim>\<open>Exchange\<close> of another thread between its load
  and its swap, whatever the entry was before, the swap fails and \<^verbatim>\<open>Mark\<close> returns
  with the entry that this call wrote, whose tag carries the mark bit, and leaves what
  remains of the schedule untouched (the step of \<^verbatim>\<open>Exchange\<close> is the state that a
  call of \<^verbatim>\<open>Exchange\<close> leaves whenever it returns). With a write of another entry without the mark
  bit in that window, \<^verbatim>\<open>Mark\<close> does not try again to mark it: it stops at the check
  that follows the swap.
\<close>

theorem Mark_sets_mark_bit:
  "(Mark handle handle_location x = Inr x' \<longrightarrow>
      IsMarked (buffer_m (fst x') (HandleToIndex handle)))
   \<and> (heap_m (fst x) handle_location = handle \<longrightarrow>
        (\<not> start_of_evacuation_area_m (fst (yield x)) \<le> HandleToIndex handle \<longrightarrow>
           Mark handle handle_location x = spec_mark_once (HandleToIndex handle) (yield x))
      \<and> (start_of_evacuation_area_m (fst (yield x)) \<le> HandleToIndex handle
           \<and> AllocateEvacuationEntry (start_of_evacuation_area_m (fst (yield x)))
                 (yield (yield x)) = Inr (new_handle, x2) \<longrightarrow>
           Mark handle handle_location x =
             spec_mark_once (HandleToIndex handle)
               (if new_handle \<noteq> kNullExternalPointerHandle
                then let x3 = yield x2;
                         x4 = yield (Store (HandleToIndex new_handle)
                                       (MakeEvacuationEntry handle_location) (fst x3), snd x3)
                     in ((fst x4)\<lparr>heap_m := (heap_m (fst x4))
                            (handle_location := handle OR kVisitedHandleMarker)\<rparr>, snd x4)
                else ((fst (yield x2))\<lparr>start_of_evacuation_area_m :=
                          start_of_evacuation_area_m (fst (yield x))
                            OR kCompactionAbortedMarker\<rparr>,
                      snd (yield x2)))))
   \<and> (heap_m s handle_location = handle
        \<and> HandleToIndex handle < start_of_evacuation_area_m s
        \<and> IsRegularEntry (buffer_m s (HandleToIndex handle)) \<longrightarrow>
      Mark handle handle_location (s, []) =
        Inr (s\<lparr>buffer_m := (buffer_m s)(HandleToIndex handle :=
                   SetMarkBit (buffer_m s (HandleToIndex handle)))\<rparr>, [])
      \<and> (handle \<noteq> kNullExternalPointerHandle \<and> v AND kExternalPointerTagMask = 0
           \<and> tag AND kExternalPointerMarkBit \<noteq> 0 \<longrightarrow>
         Mark handle handle_location
             (s, (\<lambda>s. s) # (\<lambda>s. s) # Set_by_another_thread handle v tag # fs) =
           Inr (s\<lparr>buffer_m := (buffer_m s)(HandleToIndex handle := MakeRegularEntry v tag)\<rparr>,
                fs)
         \<and> Mark handle handle_location
             (s, (\<lambda>s. s) # (\<lambda>s. s) # Exchange_by_another_thread handle v tag # fs) =
           Inr (s\<lparr>buffer_m := (buffer_m s)(HandleToIndex handle := MakeRegularEntry v tag)\<rparr>,
                fs))
      \<and> (f s = s\<lparr>buffer_m := (buffer_m s)(HandleToIndex handle := e)\<rparr>
           \<and> e \<noteq> buffer_m s (HandleToIndex handle) \<and> \<not> IsMarked e \<longrightarrow>
         Mark handle handle_location (s, (\<lambda>s. s) # (\<lambda>s. s) # f # fs) = Inl MarkBitLost))
   \<and> (Exchange handle v tag s = Inr (old_value, s1) \<longrightarrow>
        Exchange_by_another_thread handle v tag s = s1)"
proof (intro conjI impI)
  assume "Mark handle handle_location x = Inr x'"
  then show "IsMarked (buffer_m (fst x') (HandleToIndex handle))" by (rule Mark_marked)
next
  assume "heap_m (fst x) handle_location = handle"
    and "\<not> start_of_evacuation_area_m (fst (yield x)) \<le> HandleToIndex handle"
  then show "Mark handle handle_location x = spec_mark_once (HandleToIndex handle) (yield x)"
    by (rule Mark_once_below)
next
  assume h: "heap_m (fst x) handle_location = handle"
    and a: "start_of_evacuation_area_m (fst (yield x)) \<le> HandleToIndex handle
           \<and> AllocateEvacuationEntry (start_of_evacuation_area_m (fst (yield x)))
                 (yield (yield x)) = Inr (new_handle, x2)"
  show "Mark handle handle_location x =
             spec_mark_once (HandleToIndex handle)
               (if new_handle \<noteq> kNullExternalPointerHandle
                then let x3 = yield x2;
                         x4 = yield (Store (HandleToIndex new_handle)
                                       (MakeEvacuationEntry handle_location) (fst x3), snd x3)
                     in ((fst x4)\<lparr>heap_m := (heap_m (fst x4))
                            (handle_location := handle OR kVisitedHandleMarker)\<rparr>, snd x4)
                else ((fst (yield x2))\<lparr>start_of_evacuation_area_m :=
                          start_of_evacuation_area_m (fst (yield x))
                            OR kCompactionAbortedMarker\<rparr>,
                      snd (yield x2)))"
  proof (cases "new_handle = kNullExternalPointerHandle")
    case True
    with h a show ?thesis by (simp add: Mark_once_abort)
  next
    case False
    with h a show ?thesis by (simp add: Mark_once_evacuate)
  qed
next
  assume "heap_m s handle_location = handle
        \<and> HandleToIndex handle < start_of_evacuation_area_m s
        \<and> IsRegularEntry (buffer_m s (HandleToIndex handle))"
  then show "Mark handle handle_location (s, []) =
        Inr (s\<lparr>buffer_m := (buffer_m s)(HandleToIndex handle :=
                   SetMarkBit (buffer_m s (HandleToIndex handle)))\<rparr>, [])"
    by (simp add: Mark_alone_below)
next
  assume "heap_m s handle_location = handle
        \<and> HandleToIndex handle < start_of_evacuation_area_m s
        \<and> IsRegularEntry (buffer_m s (HandleToIndex handle))"
    and "handle \<noteq> kNullExternalPointerHandle \<and> v AND kExternalPointerTagMask = 0
           \<and> tag AND kExternalPointerMarkBit \<noteq> 0"
  then show "Mark handle handle_location
             (s, (\<lambda>s. s) # (\<lambda>s. s) # Set_by_another_thread handle v tag # fs) =
           Inr (s\<lparr>buffer_m := (buffer_m s)(HandleToIndex handle := MakeRegularEntry v tag)\<rparr>,
                fs)"
    by (simp add: Mark_racing_Set)
next
  assume "heap_m s handle_location = handle
        \<and> HandleToIndex handle < start_of_evacuation_area_m s
        \<and> IsRegularEntry (buffer_m s (HandleToIndex handle))"
    and "handle \<noteq> kNullExternalPointerHandle \<and> v AND kExternalPointerTagMask = 0
           \<and> tag AND kExternalPointerMarkBit \<noteq> 0"
  then show "Mark handle handle_location
             (s, (\<lambda>s. s) # (\<lambda>s. s) # Exchange_by_another_thread handle v tag # fs) =
           Inr (s\<lparr>buffer_m := (buffer_m s)(HandleToIndex handle := MakeRegularEntry v tag)\<rparr>,
                fs)"
    by (simp add: Mark_racing_Exchange)
next
  assume "heap_m s handle_location = handle
        \<and> HandleToIndex handle < start_of_evacuation_area_m s
        \<and> IsRegularEntry (buffer_m s (HandleToIndex handle))"
    and "f s = s\<lparr>buffer_m := (buffer_m s)(HandleToIndex handle := e)\<rparr>
           \<and> e \<noteq> buffer_m s (HandleToIndex handle) \<and> \<not> IsMarked e"
  then show "Mark handle handle_location (s, (\<lambda>s. s) # (\<lambda>s. s) # f # fs) = Inl MarkBitLost"
    by (simp add: Mark_racing_unmarked_write)
next
  assume "Exchange handle v tag s = Inr (old_value, s1)"
  then show "Exchange_by_another_thread handle v tag s = s1"
    by (rule Exchange_returns_store)
qed

lemma demo_index: "HandleToIndex 0x600 = 6"
  by (simp add: HandleToIndex_def kExternalPointerIndexShift_def drop_bit_eq_div)

theorem Mark_sets_mark_bit_witness:
  "heap_m demo_unmarked 0x500 = 0x600
   \<and> HandleToIndex 0x600 < start_of_evacuation_area_m demo_unmarked
   \<and> IsRegularEntry (buffer_m demo_unmarked (HandleToIndex 0x600))
   \<and> \<not> IsMarked (buffer_m demo_unmarked (HandleToIndex 0x600))
   \<and> Mark 0x600 0x500 (demo_unmarked, []) =
        Inr (demo_unmarked\<lparr>buffer_m := (buffer_m demo_unmarked)(6 := 0x8001000000001000)\<rparr>, [])
   \<and> IsMarked (buffer_m (demo_unmarked\<lparr>buffer_m := (buffer_m demo_unmarked)(6 := 0x8001000000001000)\<rparr>) 6)
   \<and> Mark 0x600 0x500 (demo_unmarked, []) = spec_mark_once 6 (demo_unmarked, [])
   \<and> Mark 0x600 0x500
         (demo_unmarked, [\<lambda>s. s, \<lambda>s. s, Set_by_another_thread 0x600 0x2000 0x8002000000000000,
                          Set_by_another_thread 0x600 0x3000 0x8002000000000000]) =
        Inr (demo_unmarked\<lparr>buffer_m := (buffer_m demo_unmarked)(6 := 0x8002000000002000)\<rparr>,
             [Set_by_another_thread 0x600 0x3000 0x8002000000000000])
   \<and> IsMarked (buffer_m (demo_unmarked\<lparr>buffer_m := (buffer_m demo_unmarked)(6 := 0x8002000000002000)\<rparr>) 6)
   \<and> \<not> HasTag (buffer_m demo_unmarked (HandleToIndex 0x600)) 0x8001000000000000
   \<and> Mark 0x600 0x500
         (demo_unmarked, [\<lambda>s. s, \<lambda>s. s, Exchange_by_another_thread 0x600 0x2000 0x8001000000000000]) =
        Inr (demo_unmarked\<lparr>buffer_m := (buffer_m demo_unmarked)(6 := 0x8001000000002000)\<rparr>, [])
   \<and> Exchange 0x600 0x2000 0x8001000000000000 demo_idle =
        Inr (0x1000, demo_idle\<lparr>buffer_m := (buffer_m demo_idle)(6 := 0x8001000000002000)\<rparr>)
   \<and> Exchange_by_another_thread 0x600 0x2000 0x8001000000000000 demo_idle =
        demo_idle\<lparr>buffer_m := (buffer_m demo_idle)(6 := 0x8001000000002000)\<rparr>
   \<and> \<not> IsMarked 0x0002000000002000
   \<and> Mark 0x600 0x500
         (demo_unmarked,
          [\<lambda>s. s, \<lambda>s. s, \<lambda>s. s\<lparr>buffer_m := (buffer_m s)(6 := 0x0002000000002000)\<rparr>]) =
        Inl MarkBitLost
   \<and> start_of_evacuation_area_m demo_exhausted \<le> HandleToIndex 0x600
   \<and> AllocateEvacuationEntry (start_of_evacuation_area_m demo_exhausted) (demo_exhausted, [])
       = Inr (kNullExternalPointerHandle, (demo_exhausted, []))
   \<and> Mark 0x600 0x500 (demo_exhausted, []) =
        spec_mark_once 6 (demo_exhausted\<lparr>start_of_evacuation_area_m := 0xf0000004\<rparr>, [])
   \<and> start_of_evacuation_area_m demo_table \<le> HandleToIndex 0x600
   \<and> AllocateEvacuationEntry (start_of_evacuation_area_m demo_table) (demo_table, [])
       = Inr (0x100, (demo_table\<lparr>freelist_head_m := 2\<rparr>, []))
   \<and> Mark 0x600 0x500 (demo_table, []) =
        spec_mark_once 6
          (demo_table\<lparr>freelist_head_m := 2,
                      buffer_m := (buffer_m demo_table)(1 := MakeEvacuationEntry 0x500),
                      heap_m := (heap_m demo_table)(0x500 := 0x601)\<rparr>, [])"
proof -
  have pre: "heap_m demo_unmarked 0x500 = 0x600
     \<and> HandleToIndex 0x600 < start_of_evacuation_area_m demo_unmarked
     \<and> IsRegularEntry (buffer_m demo_unmarked (HandleToIndex 0x600))"
    and un: "\<not> IsMarked (buffer_m demo_unmarked (HandleToIndex 0x600))"
    and nle: "\<not> start_of_evacuation_area_m demo_unmarked \<le> HandleToIndex 0x600"
    and wr: "(0x600 :: 32 word) \<noteq> kNullExternalPointerHandle
       \<and> (0x2000 :: 64 word) AND kExternalPointerTagMask = 0
       \<and> (0x8002000000000000 :: 64 word) AND kExternalPointerMarkBit \<noteq> 0"
    and wr': "(0x600 :: 32 word) \<noteq> kNullExternalPointerHandle
       \<and> (0x2000 :: 64 word) AND kExternalPointerTagMask = 0
       \<and> (0x8001000000000000 :: 64 word) AND kExternalPointerMarkBit \<noteq> 0"
    and ht: "\<not> HasTag (buffer_m demo_unmarked (HandleToIndex 0x600)) 0x8001000000000000"
    and lost: "(\<lambda>s. s\<lparr>buffer_m := (buffer_m s)(6 := 0x0002000000002000)\<rparr>) demo_unmarked
         = demo_unmarked\<lparr>buffer_m := (buffer_m demo_unmarked)(HandleToIndex 0x600 := 0x0002000000002000)\<rparr>
       \<and> 0x0002000000002000 \<noteq> buffer_m demo_unmarked (HandleToIndex 0x600)
       \<and> \<not> IsMarked 0x0002000000002000"
    by (simp_all add: demo_unmarked_def demo_table_def demo_index
        kNotCompactingMarker_def MakeRegularEntry_def
        IsRegularEntry_def IsFreelistEntry_def IsEvacuationEntry_def HasTag_def IsMarked_def
        kExternalPointerTagMask_def kExternalPointerFreeEntryTag_def
        kExternalPointerEvacuationEntryTag_def kExternalPointerMarkBit_def
        kNullExternalPointerHandle_def word_less_nat_alt word_le_nat_alt)
  note inst = Mark_sets_mark_bit [where handle = "0x600" and handle_location = "0x500"
      and s = demo_unmarked and x = "(demo_unmarked, [])"]
  note path = inst [where new_handle = 0 and ?x2.0 = "(demo_unmarked, [])",
      THEN conjunct2, THEN conjunct1]
  note race = inst [THEN conjunct2, THEN conjunct2, THEN conjunct1]
  have a: "Mark 0x600 0x500 (demo_unmarked, []) =
        Inr (demo_unmarked\<lparr>buffer_m := (buffer_m demo_unmarked)(6 := 0x8001000000001000)\<rparr>, [])"
    using race pre
    by (simp add: demo_index SetMarkBit_def kExternalPointerMarkBit_def demo_unmarked_def)
  have a': "Mark 0x600 0x500 (demo_unmarked, []) = spec_mark_once 6 (demo_unmarked, [])"
    using path pre nle by (simp add: demo_index)
  have b: "Mark 0x600 0x500
         (demo_unmarked, [\<lambda>s. s, \<lambda>s. s, Set_by_another_thread 0x600 0x2000 0x8002000000000000,
                          Set_by_another_thread 0x600 0x3000 0x8002000000000000]) =
        Inr (demo_unmarked\<lparr>buffer_m := (buffer_m demo_unmarked)(6 := 0x8002000000002000)\<rparr>,
             [Set_by_another_thread 0x600 0x3000 0x8002000000000000])"
    using inst [where v = "0x2000" and tag = "0x8002000000000000"
        and fs = "[Set_by_another_thread 0x600 0x3000 0x8002000000000000]",
        THEN conjunct2, THEN conjunct2, THEN conjunct1] pre wr
    by (simp add: demo_index MakeRegularEntry_def)
  from a inst [where x' = "(demo_unmarked\<lparr>buffer_m := (buffer_m demo_unmarked)(6 := 0x8001000000001000)\<rparr>, [])",
      THEN conjunct1]
  have c: "IsMarked (buffer_m (demo_unmarked\<lparr>buffer_m := (buffer_m demo_unmarked)(6 := 0x8001000000001000)\<rparr>) 6)"
    by (simp add: demo_index)
  have d: "IsMarked (buffer_m (demo_unmarked\<lparr>buffer_m := (buffer_m demo_unmarked)(6 := 0x8002000000002000)\<rparr>) 6)"
    by (simp add: IsMarked_def kExternalPointerMarkBit_def)
  have e: "Mark 0x600 0x500
         (demo_unmarked, [\<lambda>s. s, \<lambda>s. s, Exchange_by_another_thread 0x600 0x2000 0x8001000000000000]) =
        Inr (demo_unmarked\<lparr>buffer_m := (buffer_m demo_unmarked)(6 := 0x8001000000002000)\<rparr>, [])"
    using inst [where v = "0x2000" and tag = "0x8001000000000000" and fs = "[]",
        THEN conjunct2, THEN conjunct2, THEN conjunct1] pre wr'
    by (simp add: demo_index MakeRegularEntry_def)
  have l: "Mark 0x600 0x500
         (demo_unmarked,
          [\<lambda>s. s, \<lambda>s. s, \<lambda>s. s\<lparr>buffer_m := (buffer_m s)(6 := 0x0002000000002000)\<rparr>]) =
        Inl MarkBitLost"
    using inst [where f = "\<lambda>s. s\<lparr>buffer_m := (buffer_m s)(6 := 0x0002000000002000)\<rparr>"
        and e = "0x0002000000002000" and fs = "[]",
        THEN conjunct2, THEN conjunct2, THEN conjunct1] pre lost
    by simp
  have f: "heap_m demo_exhausted 0x500 = 0x600"
    "start_of_evacuation_area_m demo_exhausted \<le> HandleToIndex 0x600"
    "AllocateEvacuationEntry (start_of_evacuation_area_m demo_exhausted) (demo_exhausted, [])
       = Inr (kNullExternalPointerHandle, (demo_exhausted, []))"
    by (simp_all add: demo_exhausted_def demo_table_def demo_index AllocateEvacuationEntry_alone
        word_le_nat_alt)
  have g: "Mark 0x600 0x500 (demo_exhausted, []) =
        spec_mark_once 6 (demo_exhausted\<lparr>start_of_evacuation_area_m := 0xf0000004\<rparr>, [])"
    using Mark_sets_mark_bit [where handle = "0x600" and handle_location = "0x500"
        and x = "(demo_exhausted, [])" and new_handle = kNullExternalPointerHandle
        and ?x2.0 = "(demo_exhausted, [])", THEN conjunct2, THEN conjunct1] f
    by (simp add: demo_index)
      (simp add: demo_exhausted_def demo_table_def kCompactionAbortedMarker_def)
  have t: "heap_m demo_table 0x500 = 0x600"
    "start_of_evacuation_area_m demo_table \<le> HandleToIndex 0x600"
    "AllocateEvacuationEntry (start_of_evacuation_area_m demo_table) (demo_table, [])
       = Inr (0x100, (demo_table\<lparr>freelist_head_m := 2\<rparr>, []))"
    "(0x100 :: 32 word) \<noteq> kNullExternalPointerHandle"
    "HandleToIndex 0x100 = 1"
    by (simp_all add: demo_table_def demo_index AllocateEvacuationEntry_alone word_le_nat_alt
        word_less_nat_alt IsFreelistEntry_def HasTag_def MakeFreelistEntry_def
        kFreelistNextMask_def kFreelistSizeShift_def kExternalPointerTagMask_def
        kExternalPointerFreeEntryTag_def ExtractNextFreelistEntry_def IndexToHandle_def
        kExternalPointerIndexShift_def kNullExternalPointerHandle_def HandleToIndex_def
        drop_bit_eq_div)
  have h: "Mark 0x600 0x500 (demo_table, []) =
        spec_mark_once 6
          (demo_table\<lparr>freelist_head_m := 2,
                      buffer_m := (buffer_m demo_table)(1 := MakeEvacuationEntry 0x500),
                      heap_m := (heap_m demo_table)(0x500 := 0x601)\<rparr>, [])"
    using Mark_sets_mark_bit [where handle = "0x600" and handle_location = "0x500"
        and x = "(demo_table, [])" and new_handle = "0x100"
        and ?x2.0 = "(demo_table\<lparr>freelist_head_m := 2\<rparr>, [])",
        THEN conjunct2, THEN conjunct1] t
    by (simp add: demo_index Let_def Store_def kVisitedHandleMarker_def)
  have ex: "Exchange 0x600 0x2000 0x8001000000000000 demo_idle =
        Inr (0x1000, demo_idle\<lparr>buffer_m := (buffer_m demo_idle)(6 := 0x8001000000002000)\<rparr>)"
    by (simp add: Exchange_def RelaxedExchange_def Untag_def Let_def demo_index
        demo_idle_def demo_table_def MakeRegularEntry_def
        IsRegularEntry_def IsFreelistEntry_def IsEvacuationEntry_def HasTag_def
        kExternalPointerTagMask_def kExternalPointerFreeEntryTag_def
        kExternalPointerEvacuationEntryTag_def kExternalPointerMarkBit_def
        kNullExternalPointerHandle_def)
  from ex Mark_sets_mark_bit [where handle = "0x600" and v = "0x2000"
      and tag = "0x8001000000000000" and s = demo_idle and old_value = "0x1000"
      and ?s1.0 = "demo_idle\<lparr>buffer_m := (buffer_m demo_idle)(6 := 0x8001000000002000)\<rparr>",
      THEN conjunct2, THEN conjunct2, THEN conjunct2]
  have ex': "Exchange_by_another_thread 0x600 0x2000 0x8001000000000000 demo_idle =
        demo_idle\<lparr>buffer_m := (buffer_m demo_idle)(6 := 0x8001000000002000)\<rparr>"
    by simp
  from pre un a c a' b d ht e ex ex' lost l f(2,3) g t(2,3) h show ?thesis by simp
qed

subsection \<open>Compaction: abort and evacuation\<close>

lemma aborted_above_index:
  assumes "CompactingWasAbortedDuringMarking s"
  shows "\<not> start_of_evacuation_area_m s \<le> HandleToIndex handle"
proof -
  have "kCompactionAbortedMarker \<le> start_of_evacuation_area_m s"
    using assms word_and_le2 [of "start_of_evacuation_area_m s" kCompactionAbortedMarker]
    by (simp add: CompactingWasAbortedDuringMarking_def)
  with HandleToIndex_less [of handle] show ?thesis
    by (simp add: kCompactionAbortedMarker_def word_le_nat_alt word_less_nat_alt)
qed

lemma Mark_not_evacuating:
  assumes "\<not> start_of_evacuation_area_m (fst (yield x)) \<le> HandleToIndex handle"
    and "Mark handle handle_location x = Inr x'"
  shows "x' = (snd (RelaxedCompareAndSwap (HandleToIndex handle)
                   (buffer_m (fst (yield (yield x))) (HandleToIndex handle))
                   (SetMarkBit (buffer_m (fst (yield (yield x))) (HandleToIndex handle)))
                   (fst (yield (yield (yield x))))),
               snd (yield (yield (yield x))))"
  using assms
  by (simp add: Mark_def Let_def RelaxedLoad_def split: if_splits prod.splits)

lemma yield_keeps:
  assumes "P (fst x)" and "\<forall>f\<in>set (snd x). \<forall>s. P s \<longrightarrow> P (f s)"
  shows "P (fst (yield x)) \<and> (\<forall>f\<in>set (snd (yield x)). \<forall>s. P s \<longrightarrow> P (f s))"
  using assms by (cases x rule: yield.cases) auto

lemma Mark_keeps_aborted:
  assumes "CompactingWasAbortedDuringMarking (fst x)"
    and "\<forall>f\<in>set (snd x). \<forall>s. CompactingWasAbortedDuringMarking s
           \<longrightarrow> CompactingWasAbortedDuringMarking (f s)"
    and "Mark handle handle_location x = Inr x'"
  shows "CompactingWasAbortedDuringMarking (fst x')"
proof -
  note y1 = yield_keeps [of CompactingWasAbortedDuringMarking, OF assms(1,2)]
  note y2 = yield_keeps [of CompactingWasAbortedDuringMarking, OF y1 [THEN conjunct1] y1 [THEN conjunct2]]
  note y3 = yield_keeps [of CompactingWasAbortedDuringMarking, OF y2 [THEN conjunct1] y2 [THEN conjunct2]]
  from y1 have "\<not> start_of_evacuation_area_m (fst (yield x)) \<le> HandleToIndex handle"
    by (simp add: aborted_above_index)
  from Mark_not_evacuating [OF this assms(3)] y3 show ?thesis
    by (auto simp: RelaxedCompareAndSwap_def Let_def CompactingWasAbortedDuringMarking_def)
qed


lemma AllocateEvacuationEntry_alone_null:
  assumes "AllocateEvacuationEntry start (s, []) = Inr (kNullExternalPointerHandle, x2)"
    and "start \<le> HandleToIndex handle"
  shows "is_initialized_m s \<and> (freelist_head_m s = 0 \<or> start \<le> freelist_head_m s)"
proof (rule ccontr)
  assume n: "\<not> (is_initialized_m s \<and> (freelist_head_m s = 0 \<or> start \<le> freelist_head_m s))"
  with assms(1) have i: "is_initialized_m s" and h: "freelist_head_m s \<noteq> 0"
    "freelist_head_m s < start"
    and z: "IndexToHandle (freelist_head_m s) = 0"
    by (auto simp: AllocateEvacuationEntry_alone kNullExternalPointerHandle_def split: if_splits)
  from h(2) assms(2) HandleToIndex_less [of handle] have "freelist_head_m s < 0x1000000"
    by simp
  with h(1) z show False using IndexToHandle_nonzero by blast
qed

text \<open>
  C4. Let \<^verbatim>\<open>Mark\<close> run alone on a handle whose index is at or above the evacuation
  boundary and whose entry is regular, in a state where \<^verbatim>\<open>AllocateEvacuationEntry\<close>
  returns the null handle. Then \<^verbatim>\<open>Mark\<close> returns; the boundary word is its old
  value OR-ed with the abort marker, so \<^verbatim>\<open>CompactingWasAbortedDuringMarking\<close> holds;
  the only entry written is the handle's own, which gets its mark bit, so no entry
  becomes an evacuation entry. The transition is one-way: from a state where
  \<^verbatim>\<open>CompactingWasAbortedDuringMarking\<close> holds, every later \<^verbatim>\<open>Mark\<close> that returns,
  on any handle and among other threads that keep the marker, leaves it holding.
\<close>

theorem Mark_aborts_compaction:
  "(heap_m s handle_location = handle
      \<and> start_of_evacuation_area_m s \<le> HandleToIndex handle
      \<and> IsRegularEntry (buffer_m s (HandleToIndex handle))
      \<and> AllocateEvacuationEntry (start_of_evacuation_area_m s) (s, [])
          = Inr (kNullExternalPointerHandle, x2)
     \<longrightarrow> (\<exists>s'. Mark handle handle_location (s, []) = Inr (s', [])
            \<and> s' = s\<lparr>start_of_evacuation_area_m :=
                       start_of_evacuation_area_m s OR kCompactionAbortedMarker,
                     buffer_m := (buffer_m s)(HandleToIndex handle :=
                       SetMarkBit (buffer_m s (HandleToIndex handle)))\<rparr>
            \<and> CompactingWasAbortedDuringMarking s'
            \<and> (\<forall>j. IsEvacuationEntry (buffer_m s' j) \<longrightarrow> IsEvacuationEntry (buffer_m s j))))
   \<and> (CompactingWasAbortedDuringMarking (fst x)
      \<and> (\<forall>f\<in>set (snd x). \<forall>s. CompactingWasAbortedDuringMarking s
             \<longrightarrow> CompactingWasAbortedDuringMarking (f s))
      \<and> Mark handle' handle_location' x = Inr x'
     \<longrightarrow> CompactingWasAbortedDuringMarking (fst x'))"
proof (intro conjI impI)
  assume a: "heap_m s handle_location = handle
      \<and> start_of_evacuation_area_m s \<le> HandleToIndex handle
      \<and> IsRegularEntry (buffer_m s (HandleToIndex handle))
      \<and> AllocateEvacuationEntry (start_of_evacuation_area_m s) (s, [])
          = Inr (kNullExternalPointerHandle, x2)"
  then have f: "is_initialized_m s"
    "freelist_head_m s = 0 \<or> start_of_evacuation_area_m s \<le> freelist_head_m s"
    using AllocateEvacuationEntry_alone_null [of "start_of_evacuation_area_m s" s x2 handle]
    by auto
  let ?s' = "s\<lparr>start_of_evacuation_area_m :=
                       start_of_evacuation_area_m s OR kCompactionAbortedMarker,
                     buffer_m := (buffer_m s)(HandleToIndex handle :=
                       SetMarkBit (buffer_m s (HandleToIndex handle)))\<rparr>"
  have m: "Mark handle handle_location (s, []) = Inr (?s', [])"
    using a f by (simp add: Mark_alone_abort)
  have c: "CompactingWasAbortedDuringMarking ?s'"
    by (simp add: CompactingWasAbortedDuringMarking_def word_ao_absorbs)
  have e: "IsEvacuationEntry (buffer_m ?s' j) \<longrightarrow> IsEvacuationEntry (buffer_m s j)" for j
    using IsRegularEntry_SetMarkBit [of "buffer_m s (HandleToIndex handle)"]
    by (auto simp: IsRegularEntry_def)
  from m c e
  show "\<exists>s'. Mark handle handle_location (s, []) = Inr (s', [])
            \<and> s' = s\<lparr>start_of_evacuation_area_m :=
                       start_of_evacuation_area_m s OR kCompactionAbortedMarker,
                     buffer_m := (buffer_m s)(HandleToIndex handle :=
                       SetMarkBit (buffer_m s (HandleToIndex handle)))\<rparr>
            \<and> CompactingWasAbortedDuringMarking s'
            \<and> (\<forall>j. IsEvacuationEntry (buffer_m s' j) \<longrightarrow> IsEvacuationEntry (buffer_m s j))"
    by blast
next
  assume "CompactingWasAbortedDuringMarking (fst x)
      \<and> (\<forall>f\<in>set (snd x). \<forall>s. CompactingWasAbortedDuringMarking s
             \<longrightarrow> CompactingWasAbortedDuringMarking (f s))
      \<and> Mark handle' handle_location' x = Inr x'"
  then show "CompactingWasAbortedDuringMarking (fst x')"
    using Mark_keeps_aborted [of x handle' handle_location' x'] by blast
qed

lemma demo_exhausted_facts:
  "heap_m demo_exhausted 0x500 = 0x600"
  "start_of_evacuation_area_m demo_exhausted \<le> HandleToIndex 0x600"
  "IsRegularEntry (buffer_m demo_exhausted (HandleToIndex 0x600))"
  "AllocateEvacuationEntry (start_of_evacuation_area_m demo_exhausted) (demo_exhausted, [])
     = Inr (kNullExternalPointerHandle, (demo_exhausted, []))"
  "SetMarkBit (buffer_m demo_exhausted 6) = buffer_m demo_exhausted 6"
  by (simp_all add: demo_exhausted_def demo_table_def demo_index AllocateEvacuationEntry_alone
      word_le_nat_alt IsRegularEntry_def IsFreelistEntry_def IsEvacuationEntry_def HasTag_def
      MakeRegularEntry_def kExternalPointerTagMask_def kExternalPointerFreeEntryTag_def
      kExternalPointerEvacuationEntryTag_def SetMarkBit_def kExternalPointerMarkBit_def)

theorem Mark_aborts_compaction_witness:
  "heap_m demo_exhausted 0x500 = 0x600
   \<and> start_of_evacuation_area_m demo_exhausted \<le> HandleToIndex 0x600
   \<and> IsRegularEntry (buffer_m demo_exhausted (HandleToIndex 0x600))
   \<and> AllocateEvacuationEntry (start_of_evacuation_area_m demo_exhausted) (demo_exhausted, [])
       = Inr (kNullExternalPointerHandle, (demo_exhausted, []))
   \<and> Mark 0x600 0x500 (demo_exhausted, []) = Inr (demo_aborted, [])
   \<and> start_of_evacuation_area_m demo_aborted = 4 OR kCompactionAbortedMarker
   \<and> CompactingWasAbortedDuringMarking demo_aborted
   \<and> \<not> IsEvacuationEntry (buffer_m demo_aborted 1)
   \<and> Mark 0x600 0x500 (demo_aborted, []) = Inr (demo_aborted, [])
   \<and> CompactingWasAbortedDuringMarking (fst (demo_aborted, []))"
proof -
  note f = demo_exhausted_facts
  have st: "start_of_evacuation_area_m demo_aborted = 4 OR kCompactionAbortedMarker"
    by (simp add: demo_aborted_def kCompactionAbortedMarker_def)
  have eq: "demo_exhausted\<lparr>start_of_evacuation_area_m :=
                 start_of_evacuation_area_m demo_exhausted OR kCompactionAbortedMarker,
               buffer_m := (buffer_m demo_exhausted)(HandleToIndex 0x600 :=
                 SetMarkBit (buffer_m demo_exhausted (HandleToIndex 0x600)))\<rparr> = demo_aborted"
    using f(5)
    by (simp add: demo_index demo_aborted_def kCompactionAbortedMarker_def)
      (simp add: demo_exhausted_def demo_table_def)
  from Mark_aborts_compaction [where s = demo_exhausted and handle = "0x600"
      and handle_location = "0x500" and ?x2.0 = "(demo_exhausted, [])" and x = "(demo_exhausted, [])"]
    f(1-4)
  have m1: "Mark 0x600 0x500 (demo_exhausted, []) = Inr (demo_aborted, [])"
    and c1: "CompactingWasAbortedDuringMarking demo_aborted"
    unfolding eq by auto
  have ne: "\<not> IsEvacuationEntry (buffer_m demo_aborted 1)"
    by (simp add: demo_aborted_def demo_exhausted_def demo_table_def IsEvacuationEntry_def
        HasTag_def MakeFreelistEntry_def kExternalPointerTagMask_def
        kExternalPointerFreeEntryTag_def kExternalPointerEvacuationEntryTag_def
        kFreelistNextMask_def kFreelistSizeShift_def)
  have m2: "Mark 0x600 0x500 (demo_aborted, []) = Inr (demo_aborted, [])"
    using f(1,3,5)
    by (simp add: Mark_alone_below demo_aborted_def demo_index word_less_nat_alt)
  from Mark_aborts_compaction [where x = "(demo_aborted, [])" and handle' = "0x600"
      and handle_location' = "0x500" and x' = "(demo_aborted, [])"] c1 m2
  have c2: "CompactingWasAbortedDuringMarking (fst (demo_aborted, []))"
    by simp
  from f(1-4) m1 st c1 ne m2 c2 show ?thesis by simp
qed


lemma freelist_chain_same_entries:
  "\<forall>i\<in>set xs. buffer_m s' i = buffer_m s i \<Longrightarrow>
   freelist_chain s' h xs = freelist_chain s h xs"
  by (induction xs arbitrary: h) auto

lemma freelist_chain_free:
  "freelist_chain s h xs \<Longrightarrow> i \<in> set xs \<Longrightarrow> IsFreelistEntry (buffer_m s i)"
  by (induction xs arbitrary: h) auto

lemma ascending_chain_head:
  assumes "freelist_chain s h xs" and "sorted_wrt (<) xs" and "j \<in> set xs"
  shows "h = hd xs \<and> h \<noteq> 0 \<and> h \<le> j \<and> h \<in> set xs \<and> h \<notin> set (tl xs)
     \<and> IsFreelistEntry (buffer_m s h)
     \<and> freelist_chain s (ExtractNextFreelistEntry (buffer_m s h)) (tl xs)"
  using assms by (cases xs) auto

text \<open>
  C6. The freelist is in ascending order of index: this is what the source takes it
  to be when \<^verbatim>\<open>AllocateEvacuationEntry\<close> tests only its head against the boundary
  (``check that the next free entry is below the start of the evacuation area''), and
  allocation, which only removes the head, keeps it so. Let \<^verbatim>\<open>Mark\<close> run alone on a
  handle whose index is at or above the evacuation boundary and whose entry is
  regular, in an initialized table whose freelist \<open>xs\<close> is ascending, lies below the
  capacity, and has a node \<open>j\<close> below the boundary, for a handle location that is an
  address (no bit under the tag mask). Then \<^verbatim>\<open>Mark\<close> returns; there is an index
  strictly below the boundary, the first node of the freelist, whose entry is now an
  evacuation entry that records the handle location; the handle's own entry is regular
  with its mark bit set; the boundary is unchanged; and the freelist is the rest of
  \<open>xs\<close>, still ascending.
\<close>

theorem Mark_evacuates_below_boundary:
  assumes "heap_m s handle_location = handle"
    and "start_of_evacuation_area_m s \<le> HandleToIndex handle"
    and "IsRegularEntry (buffer_m s (HandleToIndex handle))"
    and "handle_location AND kExternalPointerTagMask = 0"
    and "is_initialized_m s"
    and "freelist_chain s (freelist_head_m s) xs"
    and "sorted_wrt (<) xs"
    and "\<forall>i\<in>set xs. i < capacity_m s"
    and "j \<in> set xs"
    and "j < start_of_evacuation_area_m s"
  shows "\<exists>s' j'. Mark handle handle_location (s, []) = Inr (s', [])
     \<and> j' < start_of_evacuation_area_m s
     \<and> IsEvacuationEntry (buffer_m s' j')
     \<and> ExtractHandleLocation (buffer_m s' j') = handle_location
     \<and> IsRegularEntry (buffer_m s' (HandleToIndex handle))
     \<and> IsMarked (buffer_m s' (HandleToIndex handle))
     \<and> start_of_evacuation_area_m s' = start_of_evacuation_area_m s
     \<and> j' = hd xs
     \<and> freelist_chain s' (freelist_head_m s') (tl xs)
     \<and> sorted_wrt (<) (tl xs)"
proof -
  let ?h = "freelist_head_m s"
  let ?i = "HandleToIndex handle"
  let ?s' = "s\<lparr>freelist_head_m := ExtractNextFreelistEntry (buffer_m s ?h),
             buffer_m := (buffer_m s)
               (?h := MakeEvacuationEntry handle_location,
                ?i := SetMarkBit (buffer_m s ?i)),
             heap_m := (heap_m s)(handle_location := handle OR kVisitedHandleMarker)\<rparr>"
  from ascending_chain_head [OF assms(6,7,9)]
  have hd: "?h = hd xs" and nz: "?h \<noteq> 0" and le: "?h \<le> j" and mem: "?h \<in> set xs"
    and nt: "?h \<notin> set (tl xs)" and fr: "IsFreelistEntry (buffer_m s ?h)"
    and ch: "freelist_chain s (ExtractNextFreelistEntry (buffer_m s ?h)) (tl xs)"
    by blast+
  from le assms(10) have below: "?h < start_of_evacuation_area_m s" by simp
  from mem assms(8) have cap: "?h < capacity_m s" by simp
  from below assms(2) have ne: "?h \<noteq> ?i" by auto
  have m: "Mark handle handle_location (s, []) = Inr (?s', [])"
    using assms(1,2) assms(5) nz below cap fr assms(3) by (rule Mark_alone_evacuate)
  have ni: "?i \<notin> set (tl xs)"
  proof
    assume "?i \<in> set (tl xs)"
    then have "?i \<in> set xs" by (cases xs) auto
    with assms(6) have "IsFreelistEntry (buffer_m s ?i)" by (rule freelist_chain_free)
    with assms(3) show False by (simp add: IsRegularEntry_def)
  qed
  have "freelist_chain ?s' (ExtractNextFreelistEntry (buffer_m s ?h)) (tl xs)
      = freelist_chain s (ExtractNextFreelistEntry (buffer_m s ?h)) (tl xs)"
    using nt ni by (intro freelist_chain_same_entries) auto
  with ch have ch': "freelist_chain ?s' (freelist_head_m ?s') (tl xs)" by simp
  have so: "sorted_wrt (<) (tl xs)" using assms(7) by (cases xs) auto
  have ev: "IsEvacuationEntry (buffer_m ?s' ?h)"
    "ExtractHandleLocation (buffer_m ?s' ?h) = handle_location"
    using ne assms(4)
    by (simp_all add: IsEvacuationEntry_MakeEvacuationEntry
        ExtractHandleLocation_MakeEvacuationEntry)
  have mk: "IsRegularEntry (buffer_m ?s' ?i)" "IsMarked (buffer_m ?s' ?i)"
    by (simp_all add: IsRegularEntry_SetMarkBit IsMarked_SetMarkBit)
  have st: "start_of_evacuation_area_m ?s' = start_of_evacuation_area_m s" by simp
  from m below ev mk st hd ch' so show ?thesis by blast
qed

theorem Mark_evacuates_below_boundary_witness:
  "heap_m demo_table 0x500 = 0x600
   \<and> start_of_evacuation_area_m demo_table \<le> HandleToIndex 0x600
   \<and> IsRegularEntry (buffer_m demo_table (HandleToIndex 0x600))
   \<and> (0x500 :: 64 word) AND kExternalPointerTagMask = 0
   \<and> is_initialized_m demo_table
   \<and> freelist_chain demo_table (freelist_head_m demo_table) [1, 2]
   \<and> sorted_wrt (<) [1, 2 :: 32 word]
   \<and> (1 :: 32 word) < capacity_m demo_table \<and> (2 :: 32 word) < capacity_m demo_table
   \<and> (2 :: 32 word) \<in> set [1, 2]
   \<and> (2 :: 32 word) < start_of_evacuation_area_m demo_table
   \<and> (\<exists>s' j'. Mark 0x600 0x500 (demo_table, []) = Inr (s', [])
        \<and> j' < start_of_evacuation_area_m demo_table
        \<and> IsEvacuationEntry (buffer_m s' j')
        \<and> ExtractHandleLocation (buffer_m s' j') = 0x500
        \<and> IsRegularEntry (buffer_m s' (HandleToIndex 0x600))
        \<and> IsMarked (buffer_m s' (HandleToIndex 0x600))
        \<and> start_of_evacuation_area_m s' = start_of_evacuation_area_m demo_table
        \<and> j' = 1
        \<and> freelist_chain s' (freelist_head_m s') [2])"
proof -
  have f: "heap_m demo_table 0x500 = 0x600"
    "start_of_evacuation_area_m demo_table \<le> HandleToIndex 0x600"
    "IsRegularEntry (buffer_m demo_table (HandleToIndex 0x600))"
    "(0x500 :: 64 word) AND kExternalPointerTagMask = 0"
    "is_initialized_m demo_table"
    "freelist_chain demo_table (freelist_head_m demo_table) [1, 2]"
    "sorted_wrt (<) [1, 2 :: 32 word]"
    "\<forall>i\<in>set [1, 2 :: 32 word]. i < capacity_m demo_table"
    "(2 :: 32 word) \<in> set [1, 2]"
    "(2 :: 32 word) < start_of_evacuation_area_m demo_table"
    by (simp_all add: demo_table_def demo_index word_le_nat_alt word_less_nat_alt
        IsRegularEntry_def IsFreelistEntry_def MakeFreelistEntry_def kFreelistNextMask_def
        kFreelistSizeShift_def ExtractNextFreelistEntry_def
        IsEvacuationEntry_def HasTag_def MakeRegularEntry_def kExternalPointerTagMask_def
        kExternalPointerFreeEntryTag_def kExternalPointerEvacuationEntryTag_def)
  have c: "(1 :: 32 word) < capacity_m demo_table" "(2 :: 32 word) < capacity_m demo_table"
    using f(8) by simp_all
  from Mark_evacuates_below_boundary [OF f]
  have "\<exists>s' j'. Mark 0x600 0x500 (demo_table, []) = Inr (s', [])
        \<and> j' < start_of_evacuation_area_m demo_table
        \<and> IsEvacuationEntry (buffer_m s' j')
        \<and> ExtractHandleLocation (buffer_m s' j') = 0x500
        \<and> IsRegularEntry (buffer_m s' (HandleToIndex 0x600))
        \<and> IsMarked (buffer_m s' (HandleToIndex 0x600))
        \<and> start_of_evacuation_area_m s' = start_of_evacuation_area_m demo_table
        \<and> j' = 1
        \<and> freelist_chain s' (freelist_head_m s') [2]"
    by simp
  with f(1-7) c f(9,10) show ?thesis by blast
qed

subsection \<open>The freelist size\<close>

lemma freelist_sizes_head_update [simp]:
  "freelist_sizes (s\<lparr>freelist_head_m := v\<rparr>) xs = freelist_sizes s xs"
  by (induction xs) auto

lemma freelist_chain_buffer_update:
  "i \<notin> set xs \<Longrightarrow>
   freelist_chain (s\<lparr>buffer_m := (buffer_m s)(i := e)\<rparr>) h xs = freelist_chain s h xs"
  by (induction xs arbitrary: h) auto

lemma freelist_sizes_buffer_update:
  "i \<notin> set xs \<Longrightarrow>
   freelist_sizes (s\<lparr>buffer_m := (buffer_m s)(i := e)\<rparr>) xs = freelist_sizes s xs"
  by (induction xs) auto

lemma freelist_chain_nonzero: "freelist_chain s h xs \<Longrightarrow> 0 \<notin> set xs"
  by (induction xs arbitrary: h) auto

lemma freelist_chain_entries: "freelist_chain s h xs \<Longrightarrow> i \<in> set xs \<Longrightarrow> IsFreelistEntry (buffer_m s i)"
  by (induction xs arbitrary: h) auto

lemma freelist_sizes_below: "freelist_sizes s xs \<Longrightarrow> i \<in> set xs \<Longrightarrow> i < capacity_m s"
  by (induction xs) auto

lemma freelist_chain_unique:
  "freelist_chain s h xs \<Longrightarrow> freelist_chain s h ys \<Longrightarrow> xs = ys"
proof (induction xs arbitrary: h ys)
  case Nil
  then show ?case by (cases ys) auto
next
  case (Cons i xs)
  then show ?case by (cases ys) auto
qed

lemma chain_length_bound:
  assumes "distinct xs" "0 \<notin> set xs" "\<forall>i\<in>set xs. i < (c :: 32 word)"
  shows "Suc (length xs) \<le> unat c \<or> xs = []"
proof (cases "xs = []")
  case True then show ?thesis by simp
next
  case False
  have inj: "inj_on unat (set xs)" by (auto simp: inj_on_def word_unat_eq_iff)
  have sub: "unat ` set xs \<subseteq> {1..<unat c}"
    using assms(2,3) by (auto simp: word_less_nat_alt unat_gt_0 Suc_le_eq) 
  have "length xs = card (set xs)" using assms(1) by (simp add: distinct_card)
  also have "\<dots> = card (unat ` set xs)" using inj by (simp add: card_image)
  also have "\<dots> \<le> card {1..<unat c}" using sub by (intro card_mono) auto
  finally have "length xs \<le> unat c - 1" by simp
  moreover from False sub have "1 < unat c" by (cases xs) auto
  ultimately show ?thesis by linarith
qed


lemma freelist_ok_bound:
  assumes "freelist_ok s xs"
  shows "Suc (length xs) \<le> unat (capacity_m s) \<or> xs = []"
  using assms freelist_chain_nonzero [of s "freelist_head_m s" xs]
    freelist_sizes_below [of s xs]
  by (intro chain_length_bound) (auto simp: freelist_ok_def)

lemma freelist_ok_Nil: "freelist_ok s [] \<Longrightarrow> freelist_head_m s = 0"
  by (simp add: freelist_ok_def)

lemma freelist_ok_Cons:
  assumes "freelist_ok s (i # is)"
  shows "freelist_head_m s = i" "i \<noteq> 0" "i < capacity_m s" "IsFreelistEntry (buffer_m s i)"
    "unat (ExtractFreelistSize (buffer_m s i)) = Suc (length is)" "i \<notin> set is"
    "is_initialized_m s"
  using assms by (auto simp: freelist_ok_def)

lemma freelist_ok_pop:
  assumes "freelist_ok s (i # is)"
  shows "freelist_ok (s\<lparr>freelist_head_m := ExtractNextFreelistEntry (buffer_m s i)\<rparr>) is"
  using assms by (auto simp: freelist_ok_def)

lemma freelist_ok_store:
  assumes "freelist_ok s xs" "i \<notin> set xs"
  shows "freelist_ok (s\<lparr>buffer_m := (buffer_m s)(i := e)\<rparr>) xs"
  using assms
  by (auto simp: freelist_ok_def freelist_chain_buffer_update freelist_sizes_buffer_update)

lemma FreelistSize_alone:
  "FreelistSize (s, []) =
     (if freelist_head_m s = 0 then Some (Inr (0, (s, [])))
      else if \<not> IsFreelistEntry (buffer_m s (freelist_head_m s)) then FreelistSize (s, [])
      else if \<not> ExtractFreelistSize (buffer_m s (freelist_head_m s)) \<le> capacity_m s
        then Some (Inl FreelistSizeExceedsCapacity)
      else Some (Inr (ExtractFreelistSize (buffer_m s (freelist_head_m s)), (s, []))))"
  by (subst FreelistSize.simps) (simp add: Let_def RelaxedLoad_def)

lemma FreelistSize_ok:
  assumes "freelist_ok s xs"
  shows "FreelistSize (s, []) = Some (Inr (of_nat (length xs), (s, [])))"
proof (cases xs)
  case Nil
  with assms show ?thesis by (simp add: FreelistSize_alone freelist_ok_Nil)
next
  case (Cons i rest)
  note c = freelist_ok_Cons [OF assms [unfolded Cons]]
  from freelist_ok_bound [OF assms] Cons have b: "Suc (length xs) \<le> unat (capacity_m s)" by simp
  have sz: "ExtractFreelistSize (buffer_m s i) = of_nat (length xs)"
  proof -
    have "ExtractFreelistSize (buffer_m s i) = of_nat (unat (ExtractFreelistSize (buffer_m s i)))"
      by simp
    with c(5) Cons show ?thesis by simp
  qed
  have "length xs \<le> unat (capacity_m s)" using b by simp
  then have le: "ExtractFreelistSize (buffer_m s i) \<le> capacity_m s"
    using c(5) Cons by (simp add: word_le_nat_alt)
  from c le sz show ?thesis
    by (subst FreelistSize_alone) simp
qed


lemma AllocateEvacuation_keeps_ok:
  assumes "freelist_ok s xs"
  shows "\<exists>h s' ys. AllocateEvacuationEntry b (s, []) = Inr (h, (s', [])) \<and> freelist_ok s' ys"
proof (cases xs)
  case Nil
  with assms have "AllocateEvacuationEntry b (s, []) = Inr (kNullExternalPointerHandle, (s, []))"
    by (simp add: AllocateEvacuationEntry_alone freelist_ok_Nil freelist_ok_def)
  with assms show ?thesis by blast
next
  case (Cons i rest)
  note c = freelist_ok_Cons [OF assms [unfolded Cons]]
  show ?thesis
  proof (cases "b \<le> i")
    case True
    with c have "AllocateEvacuationEntry b (s, []) = Inr (kNullExternalPointerHandle, (s, []))"
      by (simp add: AllocateEvacuationEntry_alone)
    with assms show ?thesis by blast
  next
    case False
    with c freelist_ok_pop [OF assms [unfolded Cons]] show ?thesis
      by (auto simp: AllocateEvacuationEntry_alone)
  qed
qed

lemma AllocateAndInitializeEntry_loop_claims:
  assumes "freelist_ok s (i # rest)"
  shows "AllocateAndInitializeEntry_loop Grow (s, []) =
     Some (Inr (i, (s\<lparr>freelist_head_m := ExtractNextFreelistEntry (buffer_m s i)\<rparr>, [])))"
  using freelist_ok_Cons [OF assms]
  by (subst AllocateAndInitializeEntry_loop.simps) (simp add: Try_alone)

lemma AllocateAndInitializeEntry_loop_grows:
  assumes "freelist_ok s []" "Grow s = Inr (h, s1)" "freelist_ok s1 (i # rest)" "h = freelist_head_m s1"
  shows "AllocateAndInitializeEntry_loop Grow (s, []) =
     Some (Inr (i, (s1\<lparr>freelist_head_m := ExtractNextFreelistEntry (buffer_m s1 i)\<rparr>, [])))"
  using freelist_ok_Cons [OF assms(3)] freelist_ok_Nil [OF assms(1)] assms(2,4)
  by (subst AllocateAndInitializeEntry_loop.simps) (simp add: Try_alone)

lemma AllocateAndInitializeEntry_loop_fails:
  assumes "freelist_ok s []" "Grow s = Inl e"
  shows "AllocateAndInitializeEntry_loop Grow (s, []) = Some (Inl e)"
  using freelist_ok_Nil [OF assms(1)] assms(2)
  by (subst AllocateAndInitializeEntry_loop.simps) simp

lemma Allocate_keeps_ok:
  assumes "freelist_ok s xs" "Grow_contract Grow"
  shows "(\<exists>e. AllocateAndInitializeEntry Grow v t (s, []) = Some (Inl e))
     \<or> (\<exists>h s' ys. AllocateAndInitializeEntry Grow v t (s, []) = Some (Inr (h, (s', [])))
            \<and> freelist_ok s' ys)"
proof -
  have init: "is_initialized_m s" using assms(1) by (simp add: freelist_ok_def)
  have claim: "\<exists>h s' ys. AllocateAndInitializeEntry Grow v t (s, []) = Some (Inr (h, (s', [])))
            \<and> freelist_ok s' ys"
    if l: "AllocateAndInitializeEntry_loop Grow (s, []) =
        Some (Inr (i, (s1\<lparr>freelist_head_m := ExtractNextFreelistEntry (buffer_m s1 i)\<rparr>, [])))"
      and ok: "freelist_ok s1 (i # rest)" for i s1 rest
  proof -
    from freelist_ok_pop [OF ok] freelist_ok_Cons(6) [OF ok]
    have "freelist_ok (s1\<lparr>freelist_head_m := ExtractNextFreelistEntry (buffer_m s1 i),
        buffer_m := (buffer_m s1)(i := MakeRegularEntry v t)\<rparr>) rest"
      using freelist_ok_store [of "s1\<lparr>freelist_head_m := ExtractNextFreelistEntry (buffer_m s1 i)\<rparr>"
          rest i "MakeRegularEntry v t"]
      by simp
    with l init show ?thesis
      by (auto simp: AllocateAndInitializeEntry_def RelaxedStore_def Let_def)
  qed
  show ?thesis
  proof (cases xs)
    case (Cons i rest)
    from claim [OF AllocateAndInitializeEntry_loop_claims [OF assms(1) [unfolded Cons]]
        assms(1) [unfolded Cons]]
    show ?thesis by blast
  next
    case Nil
    show ?thesis
    proof (cases "Grow s")
      case (Inl e)
      with AllocateAndInitializeEntry_loop_fails [of s Grow e] assms(1) Nil init
      show ?thesis by (auto simp: AllocateAndInitializeEntry_def)
    next
      case (Inr r)
      then obtain h s1 where g: "Grow s = Inr (h, s1)" by (cases r) auto
      with assms Nil obtain ys where h: "h = freelist_head_m s1" and ys: "ys \<noteq> []" "freelist_ok s1 ys"
        unfolding Grow_contract_def by blast
      then obtain i rest where "ys = i # rest" by (cases ys) auto
      with ys have ok1: "freelist_ok s1 (i # rest)" by simp
      have "AllocateAndInitializeEntry_loop Grow (s, []) =
          Some (Inr (i, (s1\<lparr>freelist_head_m := ExtractNextFreelistEntry (buffer_m s1 i)\<rparr>, [])))"
        using assms(1) Nil g ok1 h by (simp add: AllocateAndInitializeEntry_loop_grows)
      from claim [OF this ok1] show ?thesis by blast
    qed
  qed
qed


lemma take_bit_24_of_index: "(i::32 word) < c \<Longrightarrow> c \<le> 0x1000000 \<Longrightarrow> take_bit 24 i = i"
  by (rule take_bit_24_id) simp

lemma FreeEntry_pushes:
  assumes ok: "freelist_ok s xs"
    and i: "i \<noteq> 0" "i < capacity_m s" "IsRegularEntry (buffer_m s i)"
  shows "freelist_ok
     (s\<lparr>buffer_m := (buffer_m s)(i := MakeFreelistEntry (freelist_head_m s)
           ((if freelist_head_m s = 0 then 0
             else ExtractFreelistSize (buffer_m s (freelist_head_m s))) + 1)),
        freelist_head_m := i\<rparr>) (i # xs)"
proof -
  let ?sz = "if freelist_head_m s = 0 then 0
             else ExtractFreelistSize (buffer_m s (freelist_head_m s))"
  let ?s' = "s\<lparr>buffer_m := (buffer_m s)(i := MakeFreelistEntry (freelist_head_m s) (?sz + 1)),
        freelist_head_m := i\<rparr>"
  from ok have cap: "capacity_m s \<le> 0x1000000" and d: "distinct xs"
    and ch: "freelist_chain s (freelist_head_m s) xs" and sz: "freelist_sizes s xs"
    and init: "is_initialized_m s"
    by (auto simp: freelist_ok_def)
  have notin: "i \<notin> set xs"
    using freelist_chain_entries [OF ch, of i] i(3) by (auto simp: IsRegularEntry_def)
  have head: "take_bit 24 (freelist_head_m s) = freelist_head_m s"
  proof (cases xs)
    case Nil
    with ok show ?thesis by (simp add: freelist_ok_Nil)
  next
    case (Cons j js)
    from freelist_ok_Cons(1,3) [OF ok [unfolded Cons]] cap show ?thesis
      by (simp add: take_bit_24_of_index)
  qed
  have szv: "unat ?sz = length xs"
  proof (cases xs)
    case Nil
    with ok show ?thesis by (simp add: freelist_ok_Nil)
  next
    case (Cons j js)
    from freelist_ok_Cons(1,2,5) [OF ok [unfolded Cons]] Cons show ?thesis by simp
  qed
  have "Suc (length (i # xs)) \<le> unat (capacity_m s) \<or> i # xs = []"
    using d notin i(1,2) freelist_chain_nonzero [OF ch] freelist_sizes_below [OF sz]
    by (intro chain_length_bound) auto
  then have len: "length xs + 2 \<le> unat (capacity_m s)" by simp
  from cap have "unat (capacity_m s) \<le> 16777216" by (simp add: word_le_nat_alt)
  with len have small: "length xs + 1 < 16777216" by simp
  have sum: "unat (?sz + 1) = Suc (length xs)"
    using szv small by (simp add: unat_word_ariths)
  then have "?sz + 1 < 0x1000000"
    using small by (simp add: word_less_nat_alt)
  then have "take_bit 24 (?sz + 1) = ?sz + 1" by (rule take_bit_24_id)
  with sum have size: "unat (ExtractFreelistSize (MakeFreelistEntry (freelist_head_m s) (?sz + 1)))
      = Suc (length xs)"
    by (simp only: ExtractFreelistSize_MakeFreelistEntry)
  have ch': "freelist_chain ?s' (freelist_head_m s) xs"
    using ch notin freelist_chain_buffer_update [of i xs s] by simp
  have sz': "freelist_sizes ?s' xs"
    using sz notin freelist_sizes_buffer_update [of i xs s] by simp
  show ?thesis
    unfolding freelist_ok_def
    using init cap d notin i(1,2) ch' sz' size head
    by (simp add: IsFreelistEntry_MakeFreelistEntry ExtractNextFreelistEntry_MakeFreelistEntry)
qed

lemma FreeEntry_keeps_ok:
  assumes "freelist_ok s xs"
  shows "\<exists>ys. freelist_ok (FreeEntry i s) ys"
proof (cases "i \<noteq> 0 \<and> i < capacity_m s
         \<and> IsRegularEntry (buffer_m s i) \<and> \<not> IsMarked (buffer_m s i)")
  case True
  with FreeEntry_pushes [OF assms, of i] show ?thesis
    by (auto simp: FreeEntry_def Let_def)
next
  case False
  with assms show ?thesis by (auto simp: FreeEntry_def)
qed


lemma run_op_keeps_ok:
  assumes "freelist_ok s xs" "Grow_contract Grow"
  shows "(\<exists>e. run_op Grow op s = Some (Inl e))
     \<or> (\<exists>s' ys. run_op Grow op s = Some (Inr s') \<and> freelist_ok s' ys)"
proof (cases op)
  case (Allocate v t)
  with Allocate_keeps_ok [OF assms, of v t] show ?thesis by auto
next
  case (AllocateEvacuation b)
  with AllocateEvacuation_keeps_ok [OF assms(1), of b] show ?thesis by auto
next
  case (Free i)
  with FreeEntry_keeps_ok [OF assms(1), of i] show ?thesis by auto
qed

lemma run_ops_keeps_ok:
  assumes "freelist_ok s xs" "Grow_contract Grow"
  shows "(\<exists>e. run_ops Grow ops s = Some (Inl e))
     \<or> (\<exists>s' ys. run_ops Grow ops s = Some (Inr s') \<and> freelist_ok s' ys)"
  using assms(1)
proof (induction ops arbitrary: s xs)
  case Nil
  then show ?case by auto
next
  case (Cons op ops)
  from run_op_keeps_ok [OF Cons.prems assms(2), of op]
  show ?case
  proof
    assume "\<exists>e. run_op Grow op s = Some (Inl e)"
    then show ?thesis by auto
  next
    assume "\<exists>s' ys. run_op Grow op s = Some (Inr s') \<and> freelist_ok s' ys"
    then obtain s1 ys where r: "run_op Grow op s = Some (Inr s1)" and ok: "freelist_ok s1 ys"
      by blast
    from Cons.IH [OF ok] r show ?thesis by simp
  qed
qed

lemma demo_Grow_contract: "Grow_contract demo_Grow"
  unfolding Grow_contract_def
proof (intro allI impI)
  fix s h s'
  assume a: "freelist_ok s [] \<and> demo_Grow s = Inr (h, s')"
  then have c: "1 \<le> capacity_m s" "capacity_m s < 0x1000000"
    and h: "h = capacity_m s"
    and s': "s' = s\<lparr>buffer_m := (buffer_m s)(capacity_m s := MakeFreelistEntry 0 1),
                  capacity_m := capacity_m s + 1, freelist_head_m := capacity_m s\<rparr>"
    by (auto simp: demo_Grow_def split: if_splits)
  from c have nz: "capacity_m s \<noteq> 0" by auto
  from c(2) have u: "unat (capacity_m s) < 16777216" by (simp add: word_less_nat_alt)
  then have u1: "unat (capacity_m s + 1) = unat (capacity_m s) + 1"
    by (simp add: unat_word_ariths)
  with u have le: "capacity_m s + 1 \<le> 0x1000000" and lt: "capacity_m s < capacity_m s + 1"
    by (simp_all add: word_le_nat_alt word_less_nat_alt)
  from a have init: "is_initialized_m s" by (simp add: freelist_ok_def)
  have "freelist_ok s' [capacity_m s]"
    unfolding freelist_ok_def s'
    using init le lt nz
    by (simp add: IsFreelistEntry_MakeFreelistEntry ExtractNextFreelistEntry_MakeFreelistEntry
        ExtractFreelistSize_MakeFreelistEntry)
  with h s' show "h = freelist_head_m s' \<and> (\<exists>ys. ys \<noteq> [] \<and> freelist_ok s' ys)"
    by auto
qed


lemma AllocateAndInitializeEntry_alone_claims:
  assumes "is_initialized_m s" "freelist_head_m s \<noteq> 0" "freelist_head_m s < capacity_m s"
    "IsFreelistEntry (buffer_m s (freelist_head_m s))"
  shows "AllocateAndInitializeEntry Grow v t (s, []) =
     Some (Inr (IndexToHandle (freelist_head_m s),
       (s\<lparr>freelist_head_m := ExtractNextFreelistEntry (buffer_m s (freelist_head_m s)),
          buffer_m := (buffer_m s)(freelist_head_m s := MakeRegularEntry v t)\<rparr>, [])))"
  using assms
  by (subst AllocateAndInitializeEntry_def, subst AllocateAndInitializeEntry_loop.simps)
    (simp add: Try_alone RelaxedStore_def)

lemma AllocateAndInitializeEntry_alone_grows:
  assumes "is_initialized_m s" "freelist_head_m s = 0" "Grow s = Inr (h, s1)"
    "freelist_head_m s1 = h" "h \<noteq> 0" "h < capacity_m s1" "IsFreelistEntry (buffer_m s1 h)"
  shows "AllocateAndInitializeEntry Grow v t (s, []) =
     Some (Inr (IndexToHandle h,
       (s1\<lparr>freelist_head_m := ExtractNextFreelistEntry (buffer_m s1 h),
           buffer_m := (buffer_m s1)(h := MakeRegularEntry v t)\<rparr>, [])))"
  using assms
  by (subst AllocateAndInitializeEntry_def, subst AllocateAndInitializeEntry_loop.simps)
    (simp add: Try_alone RelaxedStore_def)

lemma AllocateAndInitializeEntry_demo_Grow:
  assumes "is_initialized_m s" "freelist_head_m s = 0" "1 \<le> capacity_m s"
    "capacity_m s < 0x1000000"
  shows "AllocateAndInitializeEntry demo_Grow v t (s, []) =
     Some (Inr (IndexToHandle (capacity_m s),
       (s\<lparr>buffer_m := (buffer_m s)(capacity_m s := MakeRegularEntry v t),
          capacity_m := capacity_m s + 1, freelist_head_m := 0\<rparr>, [])))"
proof -
  from assms(3) have nz: "capacity_m s \<noteq> 0" by auto
  from assms(4) have "unat (capacity_m s) < 16777216" by (simp add: word_less_nat_alt)
  then have lt: "capacity_m s < capacity_m s + 1"
    by (simp add: word_less_nat_alt unat_word_ariths)
  show ?thesis
    by (subst AllocateAndInitializeEntry_alone_grows [where h = "capacity_m s"
          and ?s1.0 = "s\<lparr>buffer_m := (buffer_m s)(capacity_m s := MakeFreelistEntry 0 1),
                  capacity_m := capacity_m s + 1, freelist_head_m := capacity_m s\<rparr>"])
      (simp_all add: assms nz lt demo_Grow_def IsFreelistEntry_MakeFreelistEntry
          ExtractNextFreelistEntry_MakeFreelistEntry)
qed

lemma demo_run:
  "\<exists>s'. run_ops demo_Grow demo_ops demo_unmarked = Some (Inr s')
     \<and> freelist_head_m s' = 2 \<and> buffer_m s' 2 = MakeFreelistEntry 0 1"
  apply (simp add: demo_ops_def FreeEntry_def demo_unmarked_def demo_table_def
      word_less_nat_alt word_le_nat_alt
      IsRegularEntry_def IsFreelistEntry_def IsEvacuationEntry_def HasTag_def IsMarked_def
      kExternalPointerTagMask_def kExternalPointerFreeEntryTag_def
      kExternalPointerEvacuationEntryTag_def kExternalPointerMarkBit_def
      MakeFreelistEntry_def kFreelistNextMask_def kFreelistSizeShift_def
      ExtractFreelistSize_def ExtractNextFreelistEntry_def MakeRegularEntry_def
      AllocateEvacuationEntry_alone kNotCompactingMarker_def
      AllocateAndInitializeEntry_alone_claims AllocateAndInitializeEntry_demo_Grow)
  done


lemma FreelistSize_result:
  assumes "FreelistSize x = Some (Inr (n, x'))"
  shows "(n = 0 \<and> freelist_head_m (fst x') = 0)
     \<or> (\<exists>h. h \<noteq> 0 \<and> IsFreelistEntry (buffer_m (fst x') h)
            \<and> n = ExtractFreelistSize (buffer_m (fst x') h))"
proof -
  let ?Q = "\<lambda>r. \<forall>n x'. r = Inr (n, x') \<longrightarrow>
     (n = 0 \<and> freelist_head_m (fst x') = 0)
     \<or> (\<exists>h. h \<noteq> 0 \<and> IsFreelistEntry (buffer_m (fst x') h)
            \<and> n = ExtractFreelistSize (buffer_m (fst x') h))"
  have "?Q r" if "FreelistSize x = Some r" for r
  proof (rule FreelistSize.raw_induct [where P = "\<lambda>x r. ?Q r", OF _ that], goal_cases)
    case (1 f x r)
    show ?case
    proof (cases "freelist_head_m (fst x) = 0")
      case True
      with 1(2) show ?thesis by (auto simp: Let_def)
    next
      case False
      show ?thesis
      proof (cases "IsFreelistEntry (buffer_m (fst (yield x)) (freelist_head_m (fst x)))")
        case True
        with False 1(2) show ?thesis
          by (auto simp: Let_def RelaxedLoad_def split: if_splits)
      next
        case nf: False
        with False 1(2) have "f (yield (yield x)) = Some r"
          by (simp add: Let_def RelaxedLoad_def)
        then show ?thesis by (rule 1(1))
      qed
    qed
  qed
  from this [OF assms] show ?thesis by blast
qed

lemma FreelistSize_spins:
  assumes "freelist_head_m s \<noteq> 0" "\<not> IsFreelistEntry (buffer_m s (freelist_head_m s))"
  shows "FreelistSize (s, []) = None"
proof (rule ccontr)
  assume "FreelistSize (s, []) \<noteq> None"
  then obtain r where r: "FreelistSize (s, []) = Some r" by auto
  have "x \<noteq> (s, [])" if "FreelistSize x = Some r'" for x r'
  proof (rule FreelistSize.raw_induct [where P = "\<lambda>x r. x \<noteq> (s, [])", OF _ that], goal_cases)
    case (1 f x r)
    show ?case
    proof
      assume x: "x = (s, [])"
      with assms 1(2) have "f (s, []) = Some r"
        by (simp add: Let_def RelaxedLoad_def)
      from 1(1) [OF this] show False by simp
    qed
  qed
  with r show False by blast
qed
text \<open>
  C8. Run alone, \<^verbatim>\<open>FreelistSize\<close> returns 0 when the freelist head is zero, and
  otherwise, when the head entry is a freelist entry (whose size passes the capacity
  check), the size stored in that entry; when the head entry is not a freelist entry
  it loads the head again and again and never returns. Under every interference, what
  it returns is 0, in a state whose head is zero, or the size stored in a freelist
  entry at a nonzero index. From a table on which the freelist invariant holds, with
  a growth function that meets its contract, every sequence of allocations and frees
  ends (it aborts only where growth fails), and when it returns, \<^verbatim>\<open>FreelistSize\<close>
  in the state it leaves returns the number of nodes reachable from the head by the
  next pointers up to 0.
\<close>

theorem FreelistSize_counts_freelist:
  "(freelist_head_m s = 0 \<longrightarrow> FreelistSize (s, []) = Some (Inr (0, (s, []))))
   \<and> (freelist_head_m s \<noteq> 0 \<and> IsFreelistEntry (buffer_m s (freelist_head_m s))
        \<and> ExtractFreelistSize (buffer_m s (freelist_head_m s)) \<le> capacity_m s \<longrightarrow>
      FreelistSize (s, [])
        = Some (Inr (ExtractFreelistSize (buffer_m s (freelist_head_m s)), (s, []))))
   \<and> (freelist_head_m s \<noteq> 0 \<and> \<not> IsFreelistEntry (buffer_m s (freelist_head_m s)) \<longrightarrow>
      FreelistSize (s, []) = None)
   \<and> (FreelistSize x = Some (Inr (n, x')) \<longrightarrow>
      (n = 0 \<and> freelist_head_m (fst x') = 0)
      \<or> (\<exists>h. h \<noteq> 0 \<and> IsFreelistEntry (buffer_m (fst x') h)
             \<and> n = ExtractFreelistSize (buffer_m (fst x') h)))
   \<and> (freelist_ok s0 xs \<and> Grow_contract Grow \<longrightarrow>
        (\<exists>r. run_ops Grow ops s0 = Some r)
        \<and> (\<forall>s'. run_ops Grow ops s0 = Some (Inr s') \<longrightarrow>
              (\<exists>ys. freelist_chain s' (freelist_head_m s') ys
                 \<and> FreelistSize (s', []) = Some (Inr (of_nat (length ys), (s', []))))))"
proof (intro conjI impI allI)
  assume "freelist_head_m s = 0"
  then show "FreelistSize (s, []) = Some (Inr (0, (s, [])))"
    by (simp add: FreelistSize_alone)
next
  assume "freelist_head_m s \<noteq> 0 \<and> IsFreelistEntry (buffer_m s (freelist_head_m s))
        \<and> ExtractFreelistSize (buffer_m s (freelist_head_m s)) \<le> capacity_m s"
  then show "FreelistSize (s, [])
        = Some (Inr (ExtractFreelistSize (buffer_m s (freelist_head_m s)), (s, [])))"
    by (subst FreelistSize_alone) simp
next
  assume "freelist_head_m s \<noteq> 0 \<and> \<not> IsFreelistEntry (buffer_m s (freelist_head_m s))"
  then show "FreelistSize (s, []) = None" by (simp add: FreelistSize_spins)
next
  assume "FreelistSize x = Some (Inr (n, x'))"
  then show "(n = 0 \<and> freelist_head_m (fst x') = 0)
      \<or> (\<exists>h. h \<noteq> 0 \<and> IsFreelistEntry (buffer_m (fst x') h)
             \<and> n = ExtractFreelistSize (buffer_m (fst x') h))"
    by (rule FreelistSize_result)
next
  assume a: "freelist_ok s0 xs \<and> Grow_contract Grow"
  with run_ops_keeps_ok [of s0 xs Grow ops] show "\<exists>r. run_ops Grow ops s0 = Some r" by auto
next
  fix s'
  assume a: "freelist_ok s0 xs \<and> Grow_contract Grow"
    and r: "run_ops Grow ops s0 = Some (Inr s')"
  with run_ops_keeps_ok [of s0 xs Grow ops] obtain ys where ok: "freelist_ok s' ys" by auto
  then have "freelist_chain s' (freelist_head_m s') ys" by (simp add: freelist_ok_def)
  with FreelistSize_ok [OF ok]
  show "\<exists>ys. freelist_chain s' (freelist_head_m s') ys
                 \<and> FreelistSize (s', []) = Some (Inr (of_nat (length ys), (s', [])))"
    by blast
qed

theorem FreelistSize_counts_freelist_witness:
  "freelist_head_m demo_exhausted = 0
   \<and> FreelistSize (demo_exhausted, []) = Some (Inr (0, (demo_exhausted, [])))
   \<and> freelist_head_m demo_table \<noteq> 0
   \<and> IsFreelistEntry (buffer_m demo_table (freelist_head_m demo_table))
   \<and> ExtractFreelistSize (buffer_m demo_table (freelist_head_m demo_table)) \<le> capacity_m demo_table
   \<and> FreelistSize (demo_table, []) = Some (Inr (2, (demo_table, [])))
   \<and> freelist_head_m demo_unsorted_aborted \<noteq> 0
   \<and> FreelistSize (demo_unsorted_aborted\<lparr>freelist_head_m := 6\<rparr>, []) = None
   \<and> freelist_ok demo_unmarked [1, 2]
   \<and> Grow_contract demo_Grow
   \<and> (\<exists>s'. run_ops demo_Grow demo_ops demo_unmarked = Some (Inr s')
         \<and> freelist_chain s' (freelist_head_m s') [2]
         \<and> FreelistSize (s', []) = Some (Inr (1, (s', []))))"
proof -
  have a: "freelist_head_m demo_exhausted = 0"
    by (simp add: demo_exhausted_def)
  have b: "freelist_head_m demo_table \<noteq> 0"
    "IsFreelistEntry (buffer_m demo_table (freelist_head_m demo_table))"
    "ExtractFreelistSize (buffer_m demo_table (freelist_head_m demo_table)) = 2"
    "ExtractFreelistSize (buffer_m demo_table (freelist_head_m demo_table)) \<le> capacity_m demo_table"
    by (simp_all add: demo_table_def IsFreelistEntry_MakeFreelistEntry
        ExtractFreelistSize_MakeFreelistEntry word_le_nat_alt)
  have ok: "freelist_ok demo_unmarked [1, 2]"
    by (simp add: freelist_ok_def demo_unmarked_def demo_table_def word_le_nat_alt
        word_less_nat_alt IsFreelistEntry_MakeFreelistEntry
        ExtractNextFreelistEntry_MakeFreelistEntry ExtractFreelistSize_MakeFreelistEntry)
  note g = demo_Grow_contract
  from demo_run obtain s' where r: "run_ops demo_Grow demo_ops demo_unmarked = Some (Inr s')"
    and h: "freelist_head_m s' = 2" "buffer_m s' 2 = MakeFreelistEntry 0 1"
    by blast
  have c2: "freelist_chain s' (freelist_head_m s') [2]"
    by (simp add: h IsFreelistEntry_MakeFreelistEntry ExtractNextFreelistEntry_MakeFreelistEntry)
  note inst1 = FreelistSize_counts_freelist [where s = demo_exhausted and ?s0.0 = demo_unmarked]
  note inst2 = FreelistSize_counts_freelist [where s = demo_table and ?s0.0 = demo_unmarked
      and xs = "[1, 2]" and Grow = demo_Grow and ops = demo_ops]
  from inst1 a have z: "FreelistSize (demo_exhausted, []) = Some (Inr (0, (demo_exhausted, [])))"
    by blast
  from inst2 b have t: "FreelistSize (demo_table, []) = Some (Inr (2, (demo_table, [])))"
    by simp
  have sp: "freelist_head_m demo_unsorted_aborted \<noteq> 0"
    "freelist_head_m (demo_unsorted_aborted\<lparr>freelist_head_m := 6\<rparr>) \<noteq> 0"
    "\<not> IsFreelistEntry (buffer_m (demo_unsorted_aborted\<lparr>freelist_head_m := 6\<rparr>)
         (freelist_head_m (demo_unsorted_aborted\<lparr>freelist_head_m := 6\<rparr>)))"
    by (simp_all add: demo_unsorted_aborted_def demo_unsorted_def IsFreelistEntry_def HasTag_def
        MakeRegularEntry_def kExternalPointerTagMask_def kExternalPointerFreeEntryTag_def)
  from FreelistSize_counts_freelist [where s = "demo_unsorted_aborted\<lparr>freelist_head_m := 6\<rparr>"
      and ?s0.0 = demo_unmarked] sp
  have n0: "FreelistSize (demo_unsorted_aborted\<lparr>freelist_head_m := 6\<rparr>, []) = None"
    by blast
  from inst2 ok g r obtain ys where ys: "freelist_chain s' (freelist_head_m s') ys"
    "FreelistSize (s', []) = Some (Inr (of_nat (length ys), (s', [])))"
    by blast
  from freelist_chain_unique [OF ys(1) c2] ys(2)
  have n: "FreelistSize (s', []) = Some (Inr (1, (s', [])))" by simp
  from r c2 n have "\<exists>s'. run_ops demo_Grow demo_ops demo_unmarked = Some (Inr s')
         \<and> freelist_chain s' (freelist_head_m s') [2]
         \<and> FreelistSize (s', []) = Some (Inr (1, (s', [])))" by blast
  with a z b(1,2,4) t sp(1) n0 ok g show ?thesis by blast
qed

subsection \<open>String sets\<close>

text \<open>
  C10. For every string object, \<^verbatim>\<open>StringSetShape::HashForObject\<close> returns what
  \<^verbatim>\<open>StringSetShape::Hash\<close> returns for the string: both are the string's
  \<^verbatim>\<open>EnsureHash\<close>, whatever that function computes.
\<close>

theorem HashForObject_eq_Hash:
  "StringSetShape_HashForObject EnsureHash roots (StringObject s)
     = Inr (StringSetShape_Hash EnsureHash roots s)"
  by (simp add: StringSetShape_HashForObject_def StringSetShape_Hash_def String_cast_def)

end
